theory Spec2Isabelle
  imports Complex_Main "HOL-Library.Log_Nat" "HOL-Library.Multiset" "HOL-Library.Sublist"
    "HOL-Library.Word"
begin

unbundle bit_operations_syntax

section \<open>Numbers\<close>

text \<open>
  A number of the program is an IEEE-754 double. The finite doubles are rationals, and each
  arithmetic operation returns the exact result rounded to the nearest double, ties to the
  even significand (53 bits; below \<open>2 powi - 1022\<close> the spacing stays \<open>2 powi - 1074\<close>).
  \<open>rhe\<close> rounds a rational to the nearest integer, ties to even; \<open>expo x\<close> is the binary
  exponent \<open>\<lfloor>log\<^sub>2 x\<rfloor>\<close> of a positive rational, computed from the bit lengths of numerator
  and denominator; \<open>fl\<close> is the rounding itself. Overflow to \<open>Infinity\<close> and \<open>NaN\<close> are
  outside the model; where an operation of the program can produce them, the model says so.
\<close>

definition rhe :: "rat \<Rightarrow> int" where
  "rhe y = (let f = \<lfloor>y\<rfloor>; r = y - of_int f
            in if r < 1 / 2 then f else if 1 / 2 < r then f + 1
               else if even f then f else f + 1)"

definition expo :: "rat \<Rightarrow> int" where
  "expo x = (let (p, q) = quotient_of x;
                 b = bitlen p - bitlen q
             in if 2 powi b \<le> x then b else b - 1)"

definition uexp :: "rat \<Rightarrow> int" where
  "uexp x = max (expo \<bar>x\<bar>) (- 1022) - 52"

definition fl :: "rat \<Rightarrow> rat" where
  "fl x = (if x = 0 then 0
           else let u = 2 powi uexp x in of_int (rhe (x / u)) * u)"

text \<open>
  The operators \<open>*\<close>, \<open>+\<close> and \<open>/\<close> on numbers, \<open>Math.floor\<close>, and the conversion
  \<open>ToInt32\<close> that the bitwise operators apply to their operands (truncate towards zero, then
  reduce modulo \<open>2 ^ 32\<close> into the signed range).
\<close>

definition js_mul :: "rat \<Rightarrow> rat \<Rightarrow> rat" where "js_mul a b = fl (a * b)"
definition js_add :: "rat \<Rightarrow> rat \<Rightarrow> rat" where "js_add a b = fl (a + b)"
definition js_div :: "rat \<Rightarrow> rat \<Rightarrow> rat" where "js_div a b = fl (a / b)"

definition trunc :: "rat \<Rightarrow> int" where
  "trunc x = (if 0 \<le> x then \<lfloor>x\<rfloor> else \<lceil>x\<rceil>)"

definition ToInt32 :: "rat \<Rightarrow> int" where
  "ToInt32 x = signed_take_bit 31 (trunc x)"

text \<open>A number that can be \<open>NaN\<close>: \<open>None\<close> is \<open>NaN\<close>.\<close>

type_synonym number = "rat option"

definition Math_floor :: "rat \<Rightarrow> int" where
  "Math_floor x = \<lfloor>x\<rfloor>"


subsection \<open>Properties of the rounding\<close>

lemma rhe_of_int: "rhe (of_int n) = n"
  by (simp add: rhe_def)

lemma rhe_floor_le: "\<lfloor>y\<rfloor> \<le> rhe y"
  by (simp add: rhe_def Let_def)

lemma rhe_le_floor: "rhe y \<le> \<lfloor>y\<rfloor> + 1"
  by (simp add: rhe_def Let_def)

lemma rhe_ge: "of_int n \<le> y \<Longrightarrow> n \<le> rhe y"
proof -
  assume "of_int n \<le> y"
  then have "n \<le> \<lfloor>y\<rfloor>" by (simp add: le_floor_iff)
  with rhe_floor_le [of y] show ?thesis by linarith
qed

lemma rhe_le: "y \<le> of_int n \<Longrightarrow> rhe y \<le> n"
proof -
  assume a: "y \<le> of_int n"
  show ?thesis
  proof (cases "y = of_int n")
    case True
    then show ?thesis by (simp add: rhe_of_int)
  next
    case False
    with a have "y < of_int n" by simp
    then have "\<lfloor>y\<rfloor> < n" by (simp add: floor_less_iff)
    with rhe_le_floor [of y] show ?thesis by linarith
  qed
qed

lemma rhe_mono: "x \<le> y \<Longrightarrow> rhe x \<le> rhe y"
proof -
  assume a: "x \<le> y"
  then have fm: "\<lfloor>x\<rfloor> \<le> \<lfloor>y\<rfloor>" by (rule floor_mono)
  show ?thesis
  proof (cases "\<lfloor>x\<rfloor> = \<lfloor>y\<rfloor>")
    case True
    with a have "x - of_int \<lfloor>x\<rfloor> \<le> y - of_int \<lfloor>y\<rfloor>" by simp
    with True show ?thesis by (auto simp: rhe_def Let_def)
  next
    case False
    with fm have "\<lfloor>x\<rfloor> + 1 \<le> \<lfloor>y\<rfloor>" by simp
    with rhe_le_floor [of x] rhe_floor_le [of y] show ?thesis by linarith
  qed
qed

lemma rhe_minus: "rhe (- y) = - rhe y"
proof (cases "y = of_int \<lfloor>y\<rfloor>")
  case True
  then obtain n where "y = of_int n" ..
  then have "- y = of_int (- n)" by simp
  with \<open>y = of_int n\<close> show ?thesis by (simp only: rhe_of_int)
next
  case False
  then have c: "\<lceil>y\<rceil> = \<lfloor>y\<rfloor> + 1"
    by (metis ceiling_altdef)
  have f: "\<lfloor>- y\<rfloor> = - \<lfloor>y\<rfloor> - 1"
    using c by (simp add: ceiling_def)
  have lt: "of_int \<lfloor>y\<rfloor> < y"
    using False of_int_floor_le [of y] by (metis less_le)
  have ni: "y \<noteq> of_int n" for n
    using False by (metis floor_of_int)
  show ?thesis
    unfolding rhe_def Let_def f using lt ni
    by (auto simp: algebra_simps)
qed


lemma of_int_pow2_bounds:
  assumes "0 < p"
  shows "(2::rat) powi (bitlen p - 1) \<le> of_int p" and "of_int p < (2::rat) powi (bitlen p)"
proof -
  from bitlen_bounds [OF assms]
  have lo: "2 ^ nat (bitlen p - 1) \<le> p" and hi: "p < 2 ^ nat (bitlen p)" by simp_all
  have b1: "1 \<le> bitlen p"
    using assms bitlen_eq_zero_iff [of p] bitlen_nonneg [of p] by linarith
  have "(2::rat) powi (bitlen p - 1) = 2 ^ nat (bitlen p - 1)"
    using b1 by (simp add: power_int_nonneg_exp)
  also have "\<dots> = of_int (2 ^ nat (bitlen p - 1))" by simp
  also have "\<dots> \<le> of_int p" using lo by (simp only: of_int_le_iff)
  finally show "(2::rat) powi (bitlen p - 1) \<le> of_int p" .
  have "of_int p < (of_int (2 ^ nat (bitlen p)) :: rat)" using hi by (simp only: of_int_less_iff)
  also have "\<dots> = 2 ^ nat (bitlen p)" by simp
  also have "\<dots> = (2::rat) powi (bitlen p)"
    using b1 by (simp add: power_int_nonneg_exp)
  finally show "of_int p < (2::rat) powi (bitlen p)" .
qed

lemma expo_bounds:
  assumes "0 < x"
  shows "2 powi expo x \<le> x" and "x < 2 powi (expo x + 1)"
proof -
  obtain p q where pq: "quotient_of x = (p, q)" by (cases "quotient_of x")
  then have q: "0 < q" by (rule quotient_of_denom_pos)
  from pq have x: "x = of_int p / of_int q" by (rule quotient_of_div)
  with assms q have p: "0 < p" by (simp add: zero_less_divide_iff)
  define b where "b = bitlen p - bitlen q"
  have e: "expo x = (if 2 powi b \<le> x then b else b - 1)"
    by (simp add: expo_def pq b_def)
  note P = of_int_pow2_bounds [OF p] and Q = of_int_pow2_bounds [OF q]
  have qpos: "(0::rat) < of_int q" using q by simp
  have "x < 2 powi (bitlen p) / 2 powi (bitlen q - 1)"
    unfolding x using P(2) Q(1) qpos p
    by (intro frac_less) auto
  also have "\<dots> = 2 powi (b + 1)"
    by (simp add: b_def power_int_diff [symmetric] algebra_simps)
  finally have up: "x < 2 powi (b + 1)" .
  have "(2::rat) powi (b - 1) = 2 powi (bitlen p - 1) / 2 powi (bitlen q)"
    by (simp add: b_def power_int_diff [symmetric] algebra_simps)
  also have "\<dots> \<le> x"
    unfolding x using P(1) Q(2) qpos p
    by (intro frac_le) auto
  finally have lo: "2 powi (b - 1) \<le> x" .
  show "2 powi expo x \<le> x" using lo by (simp add: e)
  show "x < 2 powi (expo x + 1)" using up by (auto simp: e not_le)
qed

lemma expo_less: "0 < x \<Longrightarrow> x < 2 powi k \<Longrightarrow> expo x < k"
proof (rule ccontr)
  assume a: "0 < x" "x < 2 powi k" "\<not> expo x < k"
  then have "(2::rat) powi k \<le> 2 powi expo x"
    by (intro power_int_increasing) auto
  with expo_bounds(1) [OF a(1)] a(2) show False by linarith
qed

lemma expo_ge: "0 < x \<Longrightarrow> 2 powi k \<le> x \<Longrightarrow> k \<le> expo x"
proof (rule ccontr)
  assume a: "0 < x" "2 powi k \<le> x" "\<not> k \<le> expo x"
  then have "(2::rat) powi (expo x + 1) \<le> 2 powi k"
    by (intro power_int_increasing) auto
  with expo_bounds(2) [OF a(1)] a(2) show False by linarith
qed


lemma fl_zero: "fl 0 = 0"
  by (simp add: fl_def)

lemma fl_unfold: "fl x = of_int (rhe (x / 2 powi uexp x)) * 2 powi uexp x"
  by (simp add: fl_def Let_def rhe_of_int [of 0, simplified])

lemma uexp_minus: "uexp (- x) = uexp x"
  by (simp add: uexp_def)

lemma fl_minus: "fl (- x) = - fl x"
  by (simp add: fl_unfold uexp_minus rhe_minus)

lemma fl_nonneg: "0 \<le> x \<Longrightarrow> 0 \<le> fl x"
proof -
  assume "0 \<le> x"
  then have "of_int 0 \<le> x / 2 powi uexp x" by simp
  then have "0 \<le> rhe (x / 2 powi uexp x)" by (rule rhe_ge)
  then show ?thesis by (simp add: fl_unfold)
qed

lemma fl_exact:
  assumes x: "x = of_int m * 2 powi g" and m: "\<bar>m\<bar> < 2 ^ 53" and g: "- 1074 \<le> g"
  shows "fl x = x"
proof (cases "x = 0")
  case True
  then show ?thesis by (simp add: fl_zero)
next
  case False
  then have pos: "0 < \<bar>x\<bar>" by simp
  have "\<bar>x\<bar> = of_int \<bar>m\<bar> * 2 powi g"
    by (simp add: x abs_mult power_int_abs)
  also have "\<dots> < of_int (2 ^ 53) * 2 powi g"
    using m by (intro mult_strict_right_mono) (simp_all only: of_int_less_iff zero_less_power_int zero_less_numeral)
  also have "\<dots> = 2 powi (53 + g)"
    by (simp add: power_int_add)
  finally have "expo \<bar>x\<bar> < 53 + g" by (rule expo_less [OF pos])
  with g have t: "uexp x \<le> g" by (simp add: uexp_def)
  define d where "d = nat (g - uexp x)"
  have gd: "g = uexp x + int d" using t by (simp add: d_def)
  have "x / 2 powi uexp x = of_int m * (2 powi g / 2 powi uexp x)" by (simp add: x)
  also have "2 powi g / 2 powi uexp x = (2::rat) ^ d"
    by (simp add: gd power_int_add)
  finally have q: "x / 2 powi uexp x = of_int (m * 2 ^ d)" by simp
  have "fl x = of_int (m * 2 ^ d) * 2 powi uexp x"
    by (simp only: fl_unfold q rhe_of_int)
  also have "\<dots> = of_int m * 2 powi g"
    by (simp add: gd power_int_add)
  finally show ?thesis by (simp add: x)
qed

lemma fl_of_int: "\<bar>m\<bar> < 2 ^ 53 \<Longrightarrow> fl (of_int m) = of_int m"
  using fl_exact [of "of_int m" m 0] by simp


lemma fl_mono_pos:
  assumes x: "0 < x" and xy: "x \<le> y"
  shows "fl x \<le> fl y"
proof -
  from x xy have y: "0 < y" by simp
  have ax: "\<bar>x\<bar> = x" and ay: "\<bar>y\<bar> = y" using x y by simp_all
  have "2 powi expo x \<le> x" by (rule expo_bounds(1) [OF x])
  with xy have "2 powi expo x \<le> y" by simp
  then have ee: "expo x \<le> expo y" by (rule expo_ge [OF y])
  then have tt: "uexp x \<le> uexp y" by (simp add: uexp_def ax ay)
  show ?thesis
  proof (cases "uexp x = uexp y")
    case True
    have "x / 2 powi uexp y \<le> y / 2 powi uexp y"
      using xy by (simp add: divide_right_mono)
    then have "rhe (x / 2 powi uexp y) \<le> rhe (y / 2 powi uexp y)" by (rule rhe_mono)
    then have "of_int (rhe (x / 2 powi uexp y)) * 2 powi uexp y
        \<le> (of_int (rhe (y / 2 powi uexp y)) :: rat) * 2 powi uexp y"
      by (intro mult_right_mono) simp_all
    then show ?thesis by (simp add: fl_unfold True)
  next
    case False
    with tt have lt: "uexp x < uexp y" by simp
    then have ey: "uexp y = expo y - 52" and ex: "expo x \<le> uexp x + 52"
      and xy1: "uexp x + 53 \<le> expo y"
      unfolding uexp_def ax ay by linarith+
    have "x < 2 powi (expo x + 1)" by (rule expo_bounds(2) [OF x])
    also have "\<dots> \<le> 2 powi (uexp x + 53)"
      using ex by (intro power_int_increasing) simp_all
    finally have "x / 2 powi uexp x \<le> 2 powi (uexp x + 53) / 2 powi uexp x"
      by (intro divide_right_mono) simp_all
    also have "\<dots> = of_int (2 ^ 53)" by (simp add: power_int_add)
    finally have "rhe (x / 2 powi uexp x) \<le> 2 ^ 53" by (rule rhe_le)
    then have "(of_int (rhe (x / 2 powi uexp x)) :: rat) \<le> of_int (2 ^ 53)"
      by (simp only: of_int_le_iff)
    then have "fl x \<le> of_int (2 ^ 53) * 2 powi uexp x"
      unfolding fl_unfold [of x] by (intro mult_right_mono) simp_all
    also have "\<dots> = 2 powi (uexp x + 53)" by (simp add: power_int_add)
    also have "\<dots> \<le> 2 powi expo y"
      using xy1 by (intro power_int_increasing) simp_all
    finally have a: "fl x \<le> 2 powi expo y" .
    have "(of_int (2 ^ 52) :: rat) = 2 powi expo y / 2 powi uexp y"
      by (simp add: ey power_int_diff)
    also have "\<dots> \<le> y / 2 powi uexp y"
      using expo_bounds(1) [OF y] by (intro divide_right_mono) simp_all
    finally have "2 ^ 52 \<le> rhe (y / 2 powi uexp y)" by (rule rhe_ge)
    then have "(of_int (2 ^ 52) :: rat) \<le> of_int (rhe (y / 2 powi uexp y))"
      by (simp only: of_int_le_iff)
    then have "of_int (2 ^ 52) * 2 powi uexp y \<le> fl y"
      unfolding fl_unfold [of y] by (intro mult_right_mono) simp_all
    moreover have "of_int (2 ^ 52) * 2 powi uexp y = (2::rat) powi expo y"
      by (simp add: ey power_int_diff)
    ultimately have "2 powi expo y \<le> fl y" by simp
    with a show ?thesis by simp
  qed
qed

lemma fl_mono: "x \<le> y \<Longrightarrow> fl x \<le> fl y"
proof -
  assume xy: "x \<le> y"
  consider "0 < x" | "x \<le> 0" "0 \<le> y" | "y < 0" by linarith
  then show ?thesis
  proof cases
    case 1
    then show ?thesis using xy by (rule fl_mono_pos)
  next
    case 2
    then have "0 \<le> fl (- x)" and "0 \<le> fl y" by (simp_all add: fl_nonneg)
    then show ?thesis by (simp add: fl_minus)
  next
    case 3
    then have "0 < - y" and "- y \<le> - x" using xy by simp_all
    then have "fl (- y) \<le> fl (- x)" by (rule fl_mono_pos)
    then show ?thesis by (simp add: fl_minus)
  qed
qed

lemma fl_even:
  assumes "2 ^ 53 \<le> \<bar>x\<bar>"
  shows "\<exists>n. fl x = of_int (2 * n)"
proof -
  have "(0::rat) < 2 ^ 53" by simp
  with assms have pos: "0 < \<bar>x\<bar>" by linarith
  have "(2::rat) powi 53 \<le> \<bar>x\<bar>" using assms by simp
  then have "53 \<le> expo \<bar>x\<bar>" by (rule expo_ge [OF pos])
  then have t: "1 \<le> uexp x" by (simp add: uexp_def)
  define d where "d = nat (uexp x - 1)"
  have "uexp x = 1 + int d" using t by (simp add: d_def)
  then have "(2::rat) powi uexp x = of_int (2 * 2 ^ d)"
    by (simp add: power_int_add)
  then have "fl x = of_int (2 * (rhe (x / 2 powi uexp x) * 2 ^ d))"
    by (simp add: fl_unfold [of x])
  then show ?thesis ..
qed

section \<open>The seeded generator of \<open>DataSplitter\<close>\<close>

text \<open>
  \<^verbatim>\<open>
  createSeededRandom(seed) {
    let state = seed;
    return function() {
      state = (state * 1103515245 + 12345) & 0x7fffffff;
      return state / 0x7fffffff;
    };
  }
  \<close>
  The closure variable \<open>state\<close> is the generator's whole state: \<open>createSeededRandom\<close>
  gives its initial value, and one call \<open>rng state\<close> returns the number produced together
  with the new state. The product \<open>state * 1103515245\<close> exceeds \<open>2 ^ 53\<close> for most
  states, so it is rounded before \<open>12345\<close> is added: the generator is not the exact
  linear congruential generator modulo \<open>2 ^ 31\<close>. \<open>rng_raw\<close> names the operand of
  \<open>&\<close>, and \<open>rng_stream seed n\<close> is the number returned by call \<open>n\<close> (counted from 0).
\<close>

definition createSeededRandom :: "int \<Rightarrow> int" where
  "createSeededRandom seed = seed"

definition rng :: "int \<Rightarrow> rat \<times> int" where
  "rng state =
     (let state' = ToInt32 (js_add (js_mul (of_int state) 1103515245) 12345) AND 0x7fffffff
      in (js_div (of_int state') 0x7fffffff, state'))"

definition rng_raw :: "int \<Rightarrow> rat" where
  "rng_raw state = js_add (js_mul (of_int state) 1103515245) 12345"

fun rng_stream :: "int \<Rightarrow> nat \<Rightarrow> rat" where
  "rng_stream state 0 = fst (rng state)"
| "rng_stream state (Suc n) = rng_stream (snd (rng state)) n"

subsection \<open>The state never reaches \<open>0x7fffffff\<close>\<close>

lemma trunc_of_int: "trunc (of_int n) = n"
  by (simp add: trunc_def)

lemma ToInt32_mask: "ToInt32 x AND 0x7fffffff = trunc x mod 2147483648"
proof -
  have "(0x7fffffff :: int) = mask 31" by (simp add: mask_eq_exp_minus_1)
  then have "ToInt32 x AND 0x7fffffff = take_bit 31 (signed_take_bit 31 (trunc x))"
    by (simp only: ToInt32_def take_bit_eq_mask)
  also have "\<dots> = take_bit 31 (trunc x)"
    by (simp add: take_bit_signed_take_bit)
  finally show ?thesis by (simp add: take_bit_eq_mod)
qed

lemma rng_state: "snd (rng state) = trunc (rng_raw state) mod 2147483648"
  by (simp add: rng_def Let_def ToInt32_mask rng_raw_def)

lemma rng_raw_cases:
  "(\<exists>n. rng_raw s = of_int (2 * n)) \<or>
   (\<bar>s\<bar> \<le> 8162278 \<and> rng_raw s = of_int (s * 1103515245 + 12345))"
proof -
  have Y: "fl 9007199254757376 = 9007199254757376"
    using fl_exact [of 9007199254757376 4503599627378688 1] by simp
  consider "\<bar>s\<bar> \<le> 8162278" | "8162279 \<le> s" | "s \<le> - 8162279" by linarith
  then show ?thesis
  proof cases
    case 1
    then have b: "\<bar>s * 1103515245\<bar> < 2 ^ 53" "\<bar>s * 1103515245 + 12345\<bar> < 2 ^ 53"
      by (simp_all add: abs_less_iff abs_le_iff)
    have "js_mul (of_int s) 1103515245 = of_int (s * 1103515245)"
      using fl_of_int [OF b(1)] by (simp add: js_mul_def)
    then have "rng_raw s = fl (of_int (s * 1103515245 + 12345))"
      by (simp add: rng_raw_def js_add_def)
    with fl_of_int [OF b(2)] 1 show ?thesis by simp
  next
    case 2
    then have "(of_int 8162279 :: rat) \<le> of_int s" by (simp only: of_int_le_iff)
    then have "(9007199254757376 :: rat) \<le> of_int s * 1103515245" by simp
    then have "fl 9007199254757376 \<le> fl (of_int s * 1103515245)" by (rule fl_mono)
    then have "9007199254757376 \<le> js_mul (of_int s) 1103515245"
      by (simp only: Y js_mul_def)
    then have "2 ^ 53 \<le> \<bar>js_mul (of_int s) 1103515245 + 12345\<bar>" by simp
    then show ?thesis unfolding rng_raw_def js_add_def by (intro disjI1 fl_even)
  next
    case 3
    then have "(of_int s :: rat) \<le> of_int (- 8162279)" by (simp only: of_int_le_iff)
    then have "of_int s * 1103515245 \<le> (- 9007199254757376 :: rat)" by simp
    then have "fl (of_int s * 1103515245) \<le> fl (- 9007199254757376)" by (rule fl_mono)
    then have "js_mul (of_int s) 1103515245 \<le> - 9007199254757376"
      by (simp only: Y js_mul_def fl_minus)
    then have "2 ^ 53 \<le> \<bar>js_mul (of_int s) 1103515245 + 12345\<bar>" by simp
    then show ?thesis unfolding rng_raw_def js_add_def by (intro disjI1 fl_even)
  qed
qed

lemma lcg_exact_never_max:
  assumes b: "\<bar>s\<bar> \<le> 8162278"
  shows "(s * 1103515245 + 12345) mod 2147483648 \<noteq> (2147483647 :: int)"
proof
  assume h: "(s * 1103515245 + 12345) mod 2147483648 = 2147483647"
  define q where "q = (s * 1103515245 + 12345) div 2147483648"
  have e: "s * 1103515245 + 12345 = q * 2147483648 + 2147483647"
    using div_mult_mod_eq [of "s * 1103515245 + 12345" 2147483648] h by (simp add: q_def)
  define z where "z = q * 1857678181 - s * 954594553 + 1857667501"
  have "1857678181 * (s * 1103515245 + 12345) = 1857678181 * (q * 2147483648 + 2147483647)"
    using e by simp
  then have s: "s = 2147483648 * z + 230538014"
    unfolding z_def by (simp add: algebra_simps)
  consider "0 \<le> z" | "z \<le> - 1" by linarith
  then show False using s b by cases linarith+
qed

lemma rng_state_never_max: "snd (rng s) \<noteq> 2147483647"
proof -
  from rng_raw_cases [of s] show ?thesis
  proof
    assume "\<exists>n. rng_raw s = of_int (2 * n)"
    then obtain n where "rng_raw s = of_int (2 * n)" ..
    then have "snd (rng s) = (2 * n) mod 2147483648"
      by (simp only: rng_state trunc_of_int)
    moreover have "even ((2 * n) mod 2147483648)" by (intro dvd_mod) simp_all
    ultimately have "even (snd (rng s))" by simp
    then show ?thesis by auto
  next
    assume a: "\<bar>s\<bar> \<le> 8162278 \<and> rng_raw s = of_int (s * 1103515245 + 12345)"
    then have "snd (rng s) = (s * 1103515245 + 12345) mod 2147483648"
      by (simp only: rng_state trunc_of_int)
    with lcg_exact_never_max a show ?thesis by simp
  qed
qed

lemma rng_state_range: "0 \<le> snd (rng s)" "snd (rng s) \<le> 2147483646"
  using rng_state_never_max [of s] by (simp_all add: rng_state) 

lemma rng_value: "fst (rng s) = js_div (of_int (snd (rng s))) 2147483647"
  by (simp add: rng_def Let_def)

lemma rng_value_range: "0 \<le> fst (rng s)" "fst (rng s) \<le> 2147483647 / 2147483648"
proof -
  have D: "fl (2147483647 / 2147483648) = 2147483647 / 2147483648"
    using fl_exact [of "2147483647 / 2147483648" 2147483647 "- 31"]
    by (simp add: power_int_minus_divide)
  note r = rng_state_range [of s]
  show "0 \<le> fst (rng s)"
    using r(1) by (simp add: rng_value js_div_def fl_nonneg)
  have "(of_int (snd (rng s)) :: rat) \<le> of_int 2147483646"
    using r(2) by (simp only: of_int_le_iff)
  then have "(of_int (snd (rng s)) :: rat) / 2147483647 \<le> 2147483647 / 2147483648"
    by simp
  then have "fl (of_int (snd (rng s)) / 2147483647) \<le> fl (2147483647 / 2147483648)"
    by (rule fl_mono)
  then show "fst (rng s) \<le> 2147483647 / 2147483648"
    by (simp add: rng_value js_div_def D)
qed

text \<open>
  Claim C10. For every integer seed, every number produced by the seeded generator lies in
  the half-open interval from 0 to 1: it is at least 0 and strictly less than 1. The
  quotient \<open>state / 0x7fffffff\<close> would be 1 for the state \<open>0x7fffffff\<close>; that state is odd,
  and an odd state arises only from a product small enough to be exact, which no seed
  congruent to the one preimage 230538014 modulo \<open>2 ^ 31\<close> is.
\<close>

theorem rng_stream_unit_interval:
  "0 \<le> rng_stream (createSeededRandom seed) n \<and> rng_stream (createSeededRandom seed) n < 1"
proof -
  have "0 \<le> rng_stream s n \<and> rng_stream s n < 1" for s
  proof (induction n arbitrary: s)
    case 0
    from rng_value_range [of s] show ?case by simp
  next
    case (Suc n)
    from Suc.IH [of "snd (rng s)"] show ?case by simp
  qed
  then show ?thesis by (simp add: createSeededRandom_def)
qed

theorem rng_stream_unit_interval_witness:
  "0 \<le> rng_stream (createSeededRandom 42) 2 \<and> rng_stream (createSeededRandom 42) 2 < 1"
  by (rule rng_stream_unit_interval)

section \<open>Nearest neighbours and the majority vote\<close>

text \<open>
  \<open>slice(start, end)\<close>: a negative index counts from the end, and both are clamped to the
  array.
\<close>

definition slice_index :: "nat \<Rightarrow> int \<Rightarrow> nat" where
  "slice_index len k = (if k < 0 then nat (max (int len + k) 0) else min (nat k) len)"

definition slice :: "'a list \<Rightarrow> int \<Rightarrow> int \<Rightarrow> 'a list" where
  "slice a start end =
     (let from = slice_index (length a) start; to = slice_index (length a) end
      in take (to - from) (drop from a))"

definition slice_from :: "'a list \<Rightarrow> int \<Rightarrow> 'a list" where
  "slice_from a start = drop (slice_index (length a) start) a"

text \<open>
  A row of the embeddings file: an id, the embedding vector and the metadata. The metadata
  is the parsed CSV row: an ordinary object whose own properties all have strings as their
  values, here the list of these properties. (The field \<open>id\<close> is \<open>id_row\<close>, \<open>id\<close> being the
  identity function.)
\<close>

record row =
  id_row :: string
  embedding :: "rat list"
  metadata :: "(string \<times> string) list"

text \<open>
  \<open>dot\<close>: \<^verbatim>\<open>let s = 0; for (let i = 0; i < a.length; i++) s += a[i] * b[i]; return s;\<close>
  Where \<open>b\<close> is shorter than \<open>a\<close> the product with \<open>undefined\<close> is \<open>NaN\<close>, and so is the
  sum: the result \<open>None\<close>.
\<close>

fun dot_loop :: "rat list \<Rightarrow> rat list \<Rightarrow> rat \<Rightarrow> number" where
  "dot_loop [] b s = Some s"
| "dot_loop (x # a) [] s = None"
| "dot_loop (x # a) (y # b) s = dot_loop a b (js_add s (js_mul x y))"

definition dot :: "rat list \<Rightarrow> rat list \<Rightarrow> number" where
  "dot a b = dot_loop a b 0"

definition cosineSimilarity :: "rat list \<Rightarrow> rat list \<Rightarrow> number" where
  "cosineSimilarity a b = dot a b"

text \<open>
  Reading a property of an ordinary object, as \<open>t.metadata[field]\<close> does, goes through the
  prototype chain. An own property gives its string. A name that the object does not have
  of its own but \<open>Object.prototype\<close> has gives what is inherited: a built-in function (for
  \<open>constructor\<close> the function \<open>Object\<close>, for every other name the method of that name), or,
  for \<open>__proto__\<close>, the prototype object itself. Any other name gives \<open>undefined\<close>, which is
  \<open>None\<close>. Used as a property key, a value is converted to a string: a built-in function to
  its source text as Node prints it, the prototype object to \<open>[object Object]\<close>.
\<close>

definition Object_prototype_keys :: "string list" where
  "Object_prototype_keys =
     [''constructor'', ''__defineGetter__'', ''__defineSetter__'', ''hasOwnProperty'',
      ''__lookupGetter__'', ''__lookupSetter__'', ''isPrototypeOf'', ''propertyIsEnumerable'',
      ''toString'', ''valueOf'', ''__proto__'', ''toLocaleString'']"

datatype js_value = Str string | Function string | Prototype

definition property_get :: "(string \<times> string) list \<Rightarrow> string \<Rightarrow> js_value option" where
  "property_get obj key =
     (case map_of obj key of
        Some s \<Rightarrow> Some (Str s)
      | None \<Rightarrow>
          if key = ''__proto__'' then Some Prototype
          else if key = ''constructor'' then Some (Function ''Object'')
          else if key \<in> set Object_prototype_keys then Some (Function key)
          else None)"

fun ToString :: "js_value \<Rightarrow> string" where
  "ToString (Str s) = s"
| "ToString (Function name) = ''function '' @ name @ ''() { [native code] }''"
| "ToString Prototype = ''[object Object]''"

text \<open>
  The \<open>counts\<close> object of \<open>majorityVote\<close> is an ordinary object. Its own properties are kept
  in creation order. A value is a count, or, for a label that names a property inherited
  from \<open>Object.prototype\<close>, the text that \<open>(counts[it] || 0) + 1\<close> makes of the inherited
  function. Assigning a string to \<open>__proto__\<close> creates no property at all.
\<close>

datatype tally = Count nat | Text

fun bump :: "(string \<times> tally) list \<Rightarrow> string \<Rightarrow> (string \<times> tally) list" where
  "bump [] it =
     (if it = ''__proto__'' then []
      else if it \<in> set Object_prototype_keys then [(it, Text)]
      else [(it, Count 1)])"
| "bump ((k, v) # cs) it =
     (if k = it then (k, (case v of Count n \<Rightarrow> Count (n + 1) | Text \<Rightarrow> Text)) # cs
      else (k, v) # bump cs it)"

text \<open>
  \<open>Object.keys\<close> lists the own properties: first the keys that are array indices (the
  canonical decimal form of an integer below \<open>2 ^ 32 - 1\<close>) in ascending numeric order,
  then every other key in creation order.
\<close>

definition is_digit :: "char \<Rightarrow> bool" where
  "is_digit c = (48 \<le> (of_char c :: int) \<and> (of_char c :: int) \<le> 57)"

definition digits_value :: "string \<Rightarrow> int" where
  "digits_value s = foldl (\<lambda>n c. 10 * n + (of_char c - 48)) 0 s"

definition array_index :: "string \<Rightarrow> int option" where
  "array_index s =
     (if s \<noteq> [] \<and> list_all is_digit s \<and> (s = ''0'' \<or> hd s \<noteq> CHR ''0'')
         \<and> digits_value s < 4294967295
      then Some (digits_value s) else None)"

definition key_order :: "string list \<Rightarrow> string list" where
  "key_order ks =
     sort_key (\<lambda>k. the (array_index k)) (filter (\<lambda>k. array_index k \<noteq> None) ks)
     @ filter (\<lambda>k. array_index k = None) ks"

definition Object_keys :: "(string \<times> tally) list \<Rightarrow> string list" where
  "Object_keys obj = key_order (map fst obj)"

text \<open>
  \<^verbatim>\<open>
  export function majorityVote(items) {
    const counts = {};
    for (const it of items) counts[it] = (counts[it] || 0) + 1;
    let maxK = null, maxV = -1;
    for (const k of Object.keys(counts)) {
      if (counts[k] > maxV) { maxV = counts[k]; maxK = k; }
    }
    return { label: maxK, count: maxV, counts };
  }
  \<close>
  An item is used as a property key only, so it counts under its string. A text never
  compares greater than a number (it converts to \<open>NaN\<close>).
  The result of \<open>predictFromId\<close> holds either this object or the literal
  \<open>{ label: null }\<close>, so \<open>count\<close> (here \<open>count_vote\<close>) and \<open>counts\<close> are optional: \<open>None\<close> is
  an absent property.
\<close>

record vote =
  label :: "string option"
  count_vote :: "int option"
  counts :: "(string \<times> tally) list option"

fun vote_loop ::
  "(string \<times> tally) list \<Rightarrow> string list \<Rightarrow> string option \<times> int \<Rightarrow> string option \<times> int" where
  "vote_loop cs [] (maxK, maxV) = (maxK, maxV)"
| "vote_loop cs (k # ks) (maxK, maxV) =
     (case map_of cs k of
        Some (Count n) \<Rightarrow>
          if int n > maxV then vote_loop cs ks (Some k, int n) else vote_loop cs ks (maxK, maxV)
      | _ \<Rightarrow> vote_loop cs ks (maxK, maxV))"

definition majorityVote :: "js_value list \<Rightarrow> vote" where
  "majorityVote items =
     (let cs = foldl (\<lambda>counts it. bump counts (ToString it)) [] items;
          (maxK, maxV) = vote_loop cs (Object_keys cs) (None, - 1)
      in \<lparr>label = maxK, count_vote = Some maxV, counts = Some cs\<rparr>)"

text \<open>
  \<^verbatim>\<open>
  export function predictFromId(id, embeddingsObj, k = 5, field = 'articleType') {
    const { rows, byId } = embeddingsObj;
    const entry = byId.get(id);
    if (!entry) throw new Error(`id ${id} not found in embeddings`);
    const q = entry.embedding;
    const sims = rows
      .filter(r => r.id !== id)
      .map(r => ({ id: r.id, metadata: r.metadata, score: cosineSimilarity(q, r.embedding) }))
      .sort((a, b) => b.score - a.score);
    const topK = sims.slice(0, k);
    const labels = topK.map(t => t.metadata[field]).filter(Boolean);
    const vote = labels.length ? majorityVote(labels) : { label: null };
    return { topK, prediction: vote };
  }
  \<close>
  \<open>loadEmbeddings\<close> builds \<open>byId\<close> from the rows; a later row with the same id replaces an
  earlier one. \<open>filter(Boolean)\<close> drops the values that are \<open>undefined\<close> or the empty string;
  an inherited function or object is kept.

  \<open>Array.prototype.sort\<close> is stable, and a comparator result of \<open>NaN\<close> counts as 0. For
  numeric scores the comparator \<open>b.score - a.score\<close> fixes the result: descending score, equal
  scores in their order in \<open>rows\<close>. When some score is \<open>NaN\<close> and the numeric scores are all
  equal, every two elements compare equal and the array stays as it is. When some score is
  \<open>NaN\<close> and two numeric scores differ, the comparator is inconsistent and the language leaves
  the order to the engine: \<open>engine_order\<close> stands for what the engine makes of the array, and
  what is proved is proved for every such function.
\<close>

record embeddingsObj =
  rows :: "row list"
  byId :: "string \<rightharpoonup> row"

definition loadEmbeddings :: "row list \<Rightarrow> embeddingsObj" where
  "loadEmbeddings arr = \<lparr>rows = arr, byId = map_of (rev (map (\<lambda>x. (id_row x, x)) arr))\<rparr>"

record neighbour =
  id_sim :: string
  metadata_sim :: "(string \<times> string) list"
  score :: number

record prediction_result =
  topK :: "neighbour list"
  prediction :: vote

datatype predict_error = NotFound string

definition Boolean :: "js_value option \<Rightarrow> bool" where
  "Boolean v = (case v of None \<Rightarrow> False | Some (Str s) \<Rightarrow> s \<noteq> [] | Some other \<Rightarrow> True)"

definition field_values :: "neighbour list \<Rightarrow> string \<Rightarrow> js_value option list" where
  "field_values ns field = map (\<lambda>t. property_get (metadata_sim t) field) ns"

definition field_labels :: "neighbour list \<Rightarrow> string \<Rightarrow> js_value list" where
  "field_labels ns field = map the (filter Boolean (field_values ns field))"

definition Array_sort ::
  "(neighbour list \<Rightarrow> neighbour list) \<Rightarrow> neighbour list \<Rightarrow> neighbour list" where
  "Array_sort engine_order a =
     (if list_all (\<lambda>t. score t \<noteq> None) a then sort_key (\<lambda>t. - the (score t)) a
      else if length (remdups (map score (filter (\<lambda>t. score t \<noteq> None) a))) \<le> 1 then a
      else engine_order a)"

definition predictFromId ::
  "(neighbour list \<Rightarrow> neighbour list) \<Rightarrow> string \<Rightarrow> embeddingsObj \<Rightarrow> int \<Rightarrow> string
   \<Rightarrow> predict_error + prediction_result" where
  "predictFromId engine_order i embeddingsObj k field =
     (case byId embeddingsObj i of
        None \<Rightarrow> Inl (NotFound i)
      | Some entry \<Rightarrow>
          let q = embedding entry;
              sims = Array_sort engine_order
                       (map (\<lambda>r. \<lparr>id_sim = id_row r, metadata_sim = metadata r,
                                   score = cosineSimilarity q (embedding r)\<rparr>)
                          (filter (\<lambda>r. id_row r \<noteq> i) (rows embeddingsObj)));
              topK = slice sims 0 k;
              labels = field_labels topK field;
              vote = (if labels \<noteq> [] then majorityVote labels
                      else \<lparr>label = None, count_vote = None, counts = None\<rparr>)
          in Inr \<lparr>topK = topK, prediction = vote\<rparr>)"

text \<open>An engine that leaves an array with an inconsistent comparator as it is.\<close>

definition unsorted :: "neighbour list \<Rightarrow> neighbour list" where
  "unsorted a = a"

subsection \<open>The tally\<close>

text \<open>
  \<open>first_seen\<close> lists the distinct elements of a sequence in the order of their first
  occurrence.
\<close>

fun first_seen :: "'a list \<Rightarrow> 'a list" where
  "first_seen [] = []"
| "first_seen (x # xs) = x # filter (\<lambda>y. y \<noteq> x) (first_seen xs)"

definition counted :: "(string \<times> tally) list \<Rightarrow> bool" where
  "counted cs = (distinct (map fst cs) \<and> list_all (\<lambda>(k, v). v \<noteq> Text) cs)"

definition tally_of :: "(string \<times> tally) list \<Rightarrow> string \<Rightarrow> nat" where
  "tally_of cs k = (case map_of cs k of Some (Count n) \<Rightarrow> n | _ \<Rightarrow> 0)"

lemma set_first_seen: "set (first_seen xs) = set xs"
  by (induction xs) auto

lemma distinct_first_seen: "distinct (first_seen xs)"
  by (induction xs) (auto simp: set_first_seen)

lemma find_first_seen: "List.find P (first_seen xs) = List.find P xs"
proof (induction xs)
  case Nil
  then show ?case by simp
next
  case (Cons x xs)
  have "List.find P (filter (\<lambda>y. y \<noteq> x) ys) = List.find P ys" if "\<not> P x" for ys
    using that by (induction ys) auto
  with Cons show ?case by simp
qed

lemma bump_keys:
  "it \<notin> set Object_prototype_keys \<Longrightarrow>
   map fst (bump cs it) = (if it \<in> set (map fst cs) then map fst cs else map fst cs @ [it])"
  by (induction cs it rule: bump.induct) (auto simp: Object_prototype_keys_def)

lemma bump_map_of:
  "it \<notin> set Object_prototype_keys \<Longrightarrow> list_all (\<lambda>(k, v). v \<noteq> Text) cs \<Longrightarrow>
   map_of (bump cs it) = (map_of cs)(it \<mapsto> Count (tally_of cs it + 1))"
proof (induction cs it rule: bump.induct)
  case (1 it)
  then show ?case by (auto simp: tally_of_def Object_prototype_keys_def)
next
  case (2 k v cs it)
  then show ?case
    by (cases v) (auto simp: tally_of_def fun_eq_iff split: option.splits tally.splits)
qed

lemma bump_counted:
  assumes "it \<notin> set Object_prototype_keys" and "counted cs"
  shows "counted (bump cs it)"
proof -
  have "list_all (\<lambda>(k, v). v \<noteq> Text) cs \<Longrightarrow> list_all (\<lambda>(k, v). v \<noteq> Text) (bump cs it)"
    using assms(1)
    by (induction cs it rule: bump.induct) (auto simp: Object_prototype_keys_def split: tally.splits)
  with assms show ?thesis
    by (auto simp: counted_def bump_keys)
qed

lemma tally_of_bump:
  assumes "it \<notin> set Object_prototype_keys" and "counted cs"
  shows "tally_of (bump cs it) k = tally_of cs k + (if k = it then 1 else 0)"
  using assms by (simp add: tally_of_def [of "bump cs it"] bump_map_of counted_def) (simp add: tally_of_def)

lemma foldl_bump:
  assumes "list_all (\<lambda>it. it \<notin> set Object_prototype_keys) items" and "counted cs"
  shows "counted (foldl bump cs items)
    \<and> map fst (foldl bump cs items)
        = map fst cs @ filter (\<lambda>k. k \<notin> set (map fst cs)) (first_seen items)
    \<and> (\<forall>k. tally_of (foldl bump cs items) k = tally_of cs k + count_list items k)"
  using assms
proof (induction items arbitrary: cs)
  case Nil
  then show ?case by simp
next
  case (Cons it items)
  then have it: "it \<notin> set Object_prototype_keys"
    and rest: "list_all (\<lambda>it. it \<notin> set Object_prototype_keys) items" by simp_all
  note c = bump_counted [OF it Cons.prems(2)]
  note IH = Cons.IH [OF rest c]
  have keys: "map fst (foldl bump (bump cs it) items)
      = map fst cs @ filter (\<lambda>k. k \<notin> set (map fst cs)) (first_seen (it # items))"
  proof (cases "it \<in> set (map fst cs)")
    case True
    then have "filter (\<lambda>k. k \<notin> set (map fst cs)) (filter (\<lambda>y. y \<noteq> it) ys)
        = filter (\<lambda>k. k \<notin> set (map fst cs)) ys" for ys
      by (induction ys) auto
    with True IH show ?thesis by (simp add: bump_keys [OF it])
  next
    case False
    then have "filter (\<lambda>k. k \<noteq> it \<and> k \<notin> set (map fst cs)) ys
        = filter (\<lambda>k. k \<notin> set (map fst cs)) (filter (\<lambda>y. y \<noteq> it) ys)" for ys
      by (induction ys) auto
    with False IH show ?thesis by (simp add: bump_keys [OF it] conj_commute)
  qed
  have "tally_of (foldl bump (bump cs it) items) k = tally_of cs k + count_list (it # items) k" for k
    using IH by (simp add: tally_of_bump [OF it Cons.prems(2)])
  with keys IH show ?case by simp
qed

lemma counted_map_of:
  assumes "counted cs" and "k \<in> set (map fst cs)"
  shows "map_of cs k = Some (Count (tally_of cs k))"
proof -
  from assms(2) obtain v where v: "map_of cs k = Some v"
    by (metis map_of_eq_None_iff not_None_eq set_map)
  then have "(k, v) \<in> set cs" by (rule map_of_SomeD)
  with assms(1) have "v \<noteq> Text" by (auto simp: counted_def list_all_iff)
  with v show ?thesis by (cases v) (simp_all add: tally_of_def)
qed

subsection \<open>The selection loop\<close>

lemma vote_loop_result:
  assumes "counted cs" and "set ks \<subseteq> set (map fst cs)"
  shows "\<exists>lk lv. vote_loop cs ks (mk, mv) = (lk, lv)
      \<and> mv \<le> lv \<and> (\<forall>k\<in>set ks. int (tally_of cs k) \<le> lv)
      \<and> (mv < lv \<longrightarrow> (\<exists>l. lk = Some l \<and> List.find (\<lambda>k. int (tally_of cs k) = lv) ks = Some l))
      \<and> (\<not> mv < lv \<longrightarrow> lk = mk \<and> lv = mv)"
  using assms(2)
proof (induction ks arbitrary: mk mv)
  case Nil
  then show ?case by simp
next
  case (Cons k ks)
  then have k: "map_of cs k = Some (Count (tally_of cs k))" and sub: "set ks \<subseteq> set (map fst cs)"
    using counted_map_of [OF assms(1), of k] by simp_all
  let ?n = "int (tally_of cs k)"
  show ?case
  proof (cases "mv < ?n")
    case True
    from Cons.IH [OF sub, of "Some k" ?n] obtain lk lv where
      r: "vote_loop cs ks (Some k, ?n) = (lk, lv)" and le: "?n \<le> lv"
      and all: "\<forall>k\<in>set ks. int (tally_of cs k) \<le> lv"
      and gt: "?n < lv \<longrightarrow> (\<exists>l. lk = Some l \<and> List.find (\<lambda>k. int (tally_of cs k) = lv) ks = Some l)"
      and eq: "\<not> ?n < lv \<longrightarrow> lk = Some k \<and> lv = ?n"
      by blast
    have 1: "vote_loop cs (k # ks) (mk, mv) = (lk, lv)" using True k r by simp
    have 2: "mv < lv" using True le by simp
    have 3: "\<forall>k'\<in>set (k # ks). int (tally_of cs k') \<le> lv" using le all by simp
    have 4: "\<exists>l. lk = Some l \<and> List.find (\<lambda>k. int (tally_of cs k) = lv) (k # ks) = Some l"
    proof (cases "?n < lv")
      case True
      with gt show ?thesis by simp
    next
      case False
      with eq show ?thesis by simp
    qed
    from 1 2 3 4 show ?thesis by (intro exI [of _ lk] exI [of _ lv]) simp
  next
    case False
    from Cons.IH [OF sub, of mk mv] obtain lk lv where
      r: "vote_loop cs ks (mk, mv) = (lk, lv)" and le: "mv \<le> lv"
      and all: "\<forall>k\<in>set ks. int (tally_of cs k) \<le> lv"
      and gt: "mv < lv \<longrightarrow> (\<exists>l. lk = Some l \<and> List.find (\<lambda>k. int (tally_of cs k) = lv) ks = Some l)"
      and eq: "\<not> mv < lv \<longrightarrow> lk = mk \<and> lv = mv"
      by blast
    have 1: "vote_loop cs (k # ks) (mk, mv) = (lk, lv)" using False k r by simp
    have 3: "\<forall>k'\<in>set (k # ks). int (tally_of cs k') \<le> lv" using False le all by simp
    have 4: "mv < lv \<longrightarrow> (\<exists>l. lk = Some l \<and> List.find (\<lambda>k. int (tally_of cs k) = lv) (k # ks) = Some l)"
      using False gt by auto
    from 1 le 3 4 eq show ?thesis by (intro exI [of _ lk] exI [of _ lv]) simp
  qed
qed

lemma set_key_order: "set (key_order ks) = set ks"
  by (auto simp: key_order_def)

lemma key_order_no_index:
  "list_all (\<lambda>k. array_index k = None) ks \<Longrightarrow> key_order ks = ks"
  by (simp add: key_order_def list_all_iff)

lemma majorityVote_result:
  assumes ne: "items \<noteq> []"
    and keys: "keys = map ToString items"
    and np: "list_all (\<lambda>it. it \<notin> set Object_prototype_keys) keys"
  shows "\<exists>l cs. majorityVote items
        = \<lparr>label = Some l, count_vote = Some (int (count_list keys l)), counts = Some cs\<rparr>
      \<and> l \<in> set keys
      \<and> (\<forall>x\<in>set keys. count_list keys x \<le> count_list keys l)
      \<and> List.find (\<lambda>x. count_list keys x = count_list keys l) (key_order (first_seen keys))
          = Some l
      \<and> map fst cs = first_seen keys
      \<and> (\<forall>x\<in>set keys. map_of cs x = Some (Count (count_list keys x)))"
proof -
  define cs where "cs = foldl bump [] keys"
  have fm: "foldl (\<lambda>counts it. bump counts (ToString it)) [] items = cs"
    by (simp add: cs_def keys foldl_map)
  have kne: "keys \<noteq> []" using ne keys by simp
  have c0: "counted []" by (simp add: counted_def)
  from foldl_bump [OF np c0] have c: "counted cs"
    and ks: "map fst cs = first_seen keys"
    and tal: "\<And>k. tally_of cs k = count_list keys k"
    by (simp_all add: cs_def tally_of_def)
  have sub: "set (Object_keys cs) \<subseteq> set (map fst cs)"
    by (simp add: Object_keys_def set_key_order)
  from vote_loop_result [OF c sub, of None "- 1"] obtain lk lv where
    r: "vote_loop cs (Object_keys cs) (None, - 1) = (lk, lv)"
    and all: "\<forall>k\<in>set (Object_keys cs). int (tally_of cs k) \<le> lv"
    and key: "- 1 < lv \<longrightarrow> (\<exists>l. lk = Some l
                \<and> List.find (\<lambda>k. int (tally_of cs k) = lv) (Object_keys cs) = Some l)"
    by blast
  have sk: "set (Object_keys cs) = set keys"
    by (simp add: Object_keys_def set_key_order ks set_first_seen)
  from kne obtain x where "x \<in> set keys" by (cases keys) auto
  with all sk have "0 \<le> lv" by fastforce
  with key obtain l where l: "lk = Some l"
    and f: "List.find (\<lambda>k. int (tally_of cs k) = lv) (Object_keys cs) = Some l" by auto
  from f have lin: "l \<in> set (Object_keys cs)" and lv: "lv = int (count_list keys l)"
    by (auto simp: find_Some_iff tal)
  have mv: "majorityVote items = \<lparr>label = Some l, count_vote = Some (int (count_list keys l)), counts = Some cs\<rparr>"
    using r l lv by (simp add: majorityVote_def fm)
  have max: "\<forall>x\<in>set keys. count_list keys x \<le> count_list keys l"
    using all sk lv by (simp add: tal)
  have fo: "List.find (\<lambda>x. count_list keys x = count_list keys l) (key_order (first_seen keys)) = Some l"
    using f by (simp add: Object_keys_def ks tal lv)
  have mo: "\<forall>x\<in>set keys. map_of cs x = Some (Count (count_list keys x))"
    using counted_map_of [OF c] by (simp add: ks set_first_seen tal)
  from mv lin sk max fo ks mo show ?thesis by blast
qed

subsection \<open>The prediction\<close>

lemma predictFromId_prediction:
  assumes "predictFromId engine_order i emb k field = Inr r"
  shows "prediction r =
    (if field_labels (topK r) field \<noteq> [] then majorityVote (field_labels (topK r) field)
     else \<lparr>label = None, count_vote = None, counts = None\<rparr>)"
  using assms
  by (auto simp: predictFromId_def Let_def split: option.splits)

lemma predictFromId_answers:
  "byId emb i \<noteq> None \<Longrightarrow> \<exists>r. predictFromId engine_order i emb k field = Inr r"
  by (auto simp: predictFromId_def Let_def)

lemma field_labels_empty:
  "list_all (\<lambda>t. \<not> Boolean (property_get (metadata_sim t) field)) ns \<Longrightarrow> field_labels ns field = []"
  by (induction ns) (simp_all add: field_labels_def field_values_def)

text \<open>
  A field that names a property of \<open>Object.prototype\<close> is read from every neighbour that has
  no such property of its own: the inherited function is a label.
\<close>

lemma inherited_field_is_a_label:
  "predictFromId unsorted ''1''
     (loadEmbeddings
        [\<lparr>id_row = ''1'', embedding = [1, 0], metadata = [(''articleType'', ''Shirts'')]\<rparr>,
         \<lparr>id_row = ''2'', embedding = [1, 0], metadata = [(''toString'', ''x'')]\<rparr>,
         \<lparr>id_row = ''3'', embedding = [0, 1], metadata = [(''gender'', ''Men'')]\<rparr>,
         \<lparr>id_row = ''4'', embedding = [0, 1], metadata = []\<rparr>])
     5 ''toString''
   = Inr \<lparr>topK = [\<lparr>id_sim = ''2'', metadata_sim = [(''toString'', ''x'')], score = Some 1\<rparr>,
                  \<lparr>id_sim = ''3'', metadata_sim = [(''gender'', ''Men'')], score = Some 0\<rparr>,
                  \<lparr>id_sim = ''4'', metadata_sim = [], score = Some 0\<rparr>],
          prediction = \<lparr>label = Some ''function toString() { [native code] }'',
                        count_vote = Some 2,
                        counts = Some [(''x'', Count 1),
                                       (''function toString() { [native code] }'', Count 2)]\<rparr>\<rparr>"
  by code_simp

text \<open>
  A row whose embedding is shorter than the query's has the score \<open>NaN\<close>. Here every other
  score is \<open>NaN\<close> too, the rows stay in their order, and the vote is taken as ever.
\<close>

lemma nan_scores_are_answered:
  "predictFromId unsorted ''1''
     (loadEmbeddings
        [\<lparr>id_row = ''1'', embedding = [1, 0], metadata = [(''articleType'', ''Shirts'')]\<rparr>,
         \<lparr>id_row = ''2'', embedding = [1], metadata = [(''articleType'', ''Jeans'')]\<rparr>,
         \<lparr>id_row = ''3'', embedding = [], metadata = [(''articleType'', ''Jeans'')]\<rparr>])
     5 ''articleType''
   = Inr \<lparr>topK = [\<lparr>id_sim = ''2'', metadata_sim = [(''articleType'', ''Jeans'')], score = None\<rparr>,
                  \<lparr>id_sim = ''3'', metadata_sim = [(''articleType'', ''Jeans'')], score = None\<rparr>],
          prediction = \<lparr>label = Some ''Jeans'', count_vote = Some 2,
                        counts = Some [(''Jeans'', Count 2)]\<rparr>\<rparr>"
  by code_simp

text \<open>
  Claim C8, as the code has it. The query is in the database, so a result is returned,
  whatever the scores are and in whatever order the engine leaves them. When no neighbour
  among the returned top-K gives a value for the requested metadata field that is kept as a
  label (an own value other than the empty string, or a value inherited from
  \<open>Object.prototype\<close>), the prediction is the literal \<open>{ label: null }\<close>: the label is \<open>null\<close>,
  and the object has no \<open>count\<close> and no \<open>counts\<close> property (not a count of 0).
\<close>

theorem predictFromId_no_field:
  assumes "byId emb i \<noteq> None"
  shows "\<exists>r. predictFromId engine_order i emb k field = Inr r
    \<and> (list_all (\<lambda>t. \<not> Boolean (property_get (metadata_sim t) field)) (topK r)
        \<longrightarrow> prediction r = \<lparr>label = None, count_vote = None, counts = None\<rparr>)"
proof -
  from predictFromId_answers [OF assms] obtain r where
    r: "predictFromId engine_order i emb k field = Inr r" by blast
  have "prediction r = \<lparr>label = None, count_vote = None, counts = None\<rparr>"
    if "list_all (\<lambda>t. \<not> Boolean (property_get (metadata_sim t) field)) (topK r)"
    using predictFromId_prediction [OF r] field_labels_empty [OF that] by simp
  with r show ?thesis by blast
qed

theorem predictFromId_no_field_witness:
  "predictFromId unsorted ''1''
     (loadEmbeddings
        [\<lparr>id_row = ''1'', embedding = [1, 0], metadata = [(''articleType'', ''Shirts'')]\<rparr>,
         \<lparr>id_row = ''2'', embedding = [0, 1], metadata = [(''gender'', ''Men'')]\<rparr>])
     5 ''articleType''
   = Inr \<lparr>topK = [\<lparr>id_sim = ''2'', metadata_sim = [(''gender'', ''Men'')], score = Some 0\<rparr>],
          prediction = \<lparr>label = None, count_vote = None, counts = None\<rparr>\<rparr>
   \<and> list_all (\<lambda>t. \<not> Boolean (property_get (metadata_sim t) ''articleType''))
        [\<lparr>id_sim = ''2'', metadata_sim = [(''gender'', ''Men'')], score = Some 0\<rparr>]"
proof -
  let ?emb = "loadEmbeddings
        [\<lparr>id_row = ''1'', embedding = [1, 0], metadata = [(''articleType'', ''Shirts'')]\<rparr>,
         \<lparr>id_row = ''2'', embedding = [0, 1], metadata = [(''gender'', ''Men'')]\<rparr>]"
  let ?top = "[\<lparr>id_sim = ''2'', metadata_sim = [(''gender'', ''Men'')], score = Some 0\<rparr>]"
  have h0: "byId ?emb ''1'' \<noteq> None" by code_simp
  have h2: "list_all (\<lambda>t. \<not> Boolean (property_get (metadata_sim t) ''articleType'')) ?top"
    by code_simp
  have t: "topK (projr (predictFromId unsorted ''1'' ?emb 5 ''articleType'')) = ?top"
    by code_simp
  from predictFromId_no_field [OF h0, of unsorted 5 "''articleType''"] obtain r where
    r: "predictFromId unsorted ''1'' ?emb 5 ''articleType'' = Inr r"
    and p: "list_all (\<lambda>t. \<not> Boolean (property_get (metadata_sim t) ''articleType'')) (topK r)
        \<longrightarrow> prediction r = \<lparr>label = None, count_vote = None, counts = None\<rparr>"
    by blast
  from t r have tr: "topK r = ?top" by simp
  with p h2 have "prediction r = \<lparr>label = None, count_vote = None, counts = None\<rparr>" by simp
  with tr have "r = \<lparr>topK = ?top, prediction = \<lparr>label = None, count_vote = None, counts = None\<rparr>\<rparr>"
    by (cases r) simp
  with r h2 show ?thesis by simp
qed

text \<open>
  The claim as stated asks for \<open>{label: null, count: 0}\<close>. For the query \<open>1\<close> below, the one
  neighbour has no \<open>articleType\<close>, and the prediction has no count.
\<close>

theorem predictFromId_no_field_counterexample:
  "predictFromId unsorted ''1''
     (loadEmbeddings
        [\<lparr>id_row = ''1'', embedding = [1, 0], metadata = [(''articleType'', ''Shirts'')]\<rparr>,
         \<lparr>id_row = ''2'', embedding = [0, 1], metadata = [(''gender'', ''Men'')]\<rparr>])
     5 ''articleType''
   = Inr \<lparr>topK = [\<lparr>id_sim = ''2'', metadata_sim = [(''gender'', ''Men'')], score = Some 0\<rparr>],
          prediction = \<lparr>label = None, count_vote = None, counts = None\<rparr>\<rparr>
   \<and> count_vote \<lparr>label = None, count_vote = None, counts = None\<rparr> \<noteq> Some 0"
  by code_simp

text \<open>
  Claim C9, as the code has it. The labels voted on are the values that the top-K
  neighbours give for the field, in top-K order, each under its string: an own value other
  than the empty string, or, where the field names a property of \<open>Object.prototype\<close> that a
  neighbour does not have of its own, the text of what is inherited. This holds whatever the
  scores are and in whatever order the engine leaves them.
  For labels none of which is itself the name of an inherited property of objects, the vote
  returns a label with the highest tally, that tally as its count, and the counts of all
  labels, kept in first-seen order. Ties between labels of equal highest count are broken by
  the key order of the counts object: labels that are array indices (canonical decimal
  integers below \<open>2 ^ 32 - 1\<close>) first, in ascending numeric order, then the other labels in
  first-seen order. When no label is an array index, that is first-seen order within the
  top-K sequence.
\<close>

theorem majorityVote_key_order:
  assumes "predictFromId engine_order i emb k field = Inr r"
    and "items = map ToString (field_labels (topK r) field)"
    and "items \<noteq> []"
    and "list_all (\<lambda>it. it \<notin> set Object_prototype_keys) items"
  shows "\<exists>l cs. prediction r
        = \<lparr>label = Some l, count_vote = Some (int (count_list items l)), counts = Some cs\<rparr>
      \<and> l \<in> set items
      \<and> (\<forall>x\<in>set items. count_list items x \<le> count_list items l)
      \<and> List.find (\<lambda>x. count_list items x = count_list items l) (key_order (first_seen items))
          = Some l
      \<and> (list_all (\<lambda>x. array_index x = None) items \<longrightarrow>
          List.find (\<lambda>x. count_list items x = count_list items l) items = Some l)
      \<and> map fst cs = first_seen items
      \<and> (\<forall>x\<in>set items. map_of cs x = Some (Count (count_list items x)))"
proof -
  have ne: "field_labels (topK r) field \<noteq> []" using assms(2,3) by auto
  from majorityVote_result [OF ne assms(2,4)] obtain l cs where
    mv: "majorityVote (field_labels (topK r) field)
        = \<lparr>label = Some l, count_vote = Some (int (count_list items l)), counts = Some cs\<rparr>"
    and l: "l \<in> set items"
    and mx: "\<forall>x\<in>set items. count_list items x \<le> count_list items l"
    and fo: "List.find (\<lambda>x. count_list items x = count_list items l) (key_order (first_seen items))
          = Some l"
    and ks: "map fst cs = first_seen items"
    and mo: "\<forall>x\<in>set items. map_of cs x = Some (Count (count_list items x))"
    by blast
  have p: "prediction r
        = \<lparr>label = Some l, count_vote = Some (int (count_list items l)), counts = Some cs\<rparr>"
    using predictFromId_prediction [OF assms(1)] ne mv by simp
  have fs: "List.find (\<lambda>x. count_list items x = count_list items l) items = Some l"
    if "list_all (\<lambda>x. array_index x = None) items"
  proof -
    from that have "list_all (\<lambda>x. array_index x = None) (first_seen items)"
      by (simp add: list_all_iff set_first_seen)
    then have "key_order (first_seen items) = first_seen items" by (rule key_order_no_index)
    with fo show ?thesis by (simp add: find_first_seen)
  qed
  from p l mx fo fs ks mo show ?thesis by blast
qed

theorem majorityVote_key_order_witness:
  "predictFromId unsorted ''1''
     (loadEmbeddings
        [\<lparr>id_row = ''1'', embedding = [1, 0], metadata = [(''articleType'', ''Shirts'')]\<rparr>,
         \<lparr>id_row = ''2'', embedding = [1, 0], metadata = [(''articleType'', ''Jeans'')]\<rparr>,
         \<lparr>id_row = ''3'', embedding = [0, 1], metadata = [(''articleType'', ''Shirts'')]\<rparr>,
         \<lparr>id_row = ''4'', embedding = [0, 1], metadata = [(''gender'', ''Men'')]\<rparr>])
     3 ''articleType''
   = Inr \<lparr>topK = [\<lparr>id_sim = ''2'', metadata_sim = [(''articleType'', ''Jeans'')], score = Some 1\<rparr>,
                  \<lparr>id_sim = ''3'', metadata_sim = [(''articleType'', ''Shirts'')], score = Some 0\<rparr>,
                  \<lparr>id_sim = ''4'', metadata_sim = [(''gender'', ''Men'')], score = Some 0\<rparr>],
          prediction = \<lparr>label = Some ''Jeans'', count_vote = Some 1,
                        counts = Some [(''Jeans'', Count 1), (''Shirts'', Count 1)]\<rparr>\<rparr>
   \<and> List.find (\<lambda>x. count_list [''Jeans'', ''Shirts''] x = count_list [''Jeans'', ''Shirts''] ''Jeans'')
        [''Jeans'', ''Shirts''] = Some ''Jeans''"
proof -
  let ?emb = "loadEmbeddings
        [\<lparr>id_row = ''1'', embedding = [1, 0], metadata = [(''articleType'', ''Shirts'')]\<rparr>,
         \<lparr>id_row = ''2'', embedding = [1, 0], metadata = [(''articleType'', ''Jeans'')]\<rparr>,
         \<lparr>id_row = ''3'', embedding = [0, 1], metadata = [(''articleType'', ''Shirts'')]\<rparr>,
         \<lparr>id_row = ''4'', embedding = [0, 1], metadata = [(''gender'', ''Men'')]\<rparr>]"
  let ?top = "[\<lparr>id_sim = ''2'', metadata_sim = [(''articleType'', ''Jeans'')], score = Some 1\<rparr>,
                  \<lparr>id_sim = ''3'', metadata_sim = [(''articleType'', ''Shirts'')], score = Some 0\<rparr>,
                  \<lparr>id_sim = ''4'', metadata_sim = [(''gender'', ''Men'')], score = Some 0\<rparr>]"
  let ?r = "\<lparr>topK = ?top,
          prediction = \<lparr>label = Some ''Jeans'', count_vote = Some 1,
                        counts = Some [(''Jeans'', Count 1), (''Shirts'', Count 1)]\<rparr>\<rparr>"
  have h1: "predictFromId unsorted ''1'' ?emb 3 ''articleType'' = Inr ?r"
    by code_simp
  have h2: "[''Jeans'', ''Shirts''] = map ToString (field_labels (topK ?r) ''articleType'')"
    by code_simp
  have h3: "[''Jeans'', ''Shirts''] \<noteq> ([] :: string list)" by simp
  have h4: "list_all (\<lambda>it. it \<notin> set Object_prototype_keys) [''Jeans'', ''Shirts'']"
    by code_simp
  have h5: "list_all (\<lambda>x. array_index x = None) [''Jeans'', ''Shirts'']"
    by code_simp
  from majorityVote_key_order [OF h1 h2 h3 h4] h5 obtain l where
    "label (prediction ?r) = Some l"
    "List.find (\<lambda>x. count_list [''Jeans'', ''Shirts''] x = count_list [''Jeans'', ''Shirts''] l)
       [''Jeans'', ''Shirts''] = Some l"
    by force
  then have "List.find (\<lambda>x. count_list [''Jeans'', ''Shirts''] x = count_list [''Jeans'', ''Shirts''] ''Jeans'')
        [''Jeans'', ''Shirts''] = Some ''Jeans''" by simp
  with h1 show ?thesis by simp
qed

text \<open>
  The claim as stated breaks every tie by first-seen order. For the labels \<open>2012\<close>, \<open>2011\<close> of
  two neighbours (one vote each) the first seen is \<open>2012\<close>, and the vote returns \<open>2011\<close>.
\<close>

theorem majorityVote_first_seen_counterexample:
  "field_labels
     [\<lparr>id_sim = ''7'', metadata_sim = [(''year'', ''2012'')], score = Some 1\<rparr>,
      \<lparr>id_sim = ''8'', metadata_sim = [(''year'', ''2011'')], score = Some 0\<rparr>] ''year''
   = [Str ''2012'', Str ''2011'']
   \<and> majorityVote [Str ''2012'', Str ''2011'']
     = \<lparr>label = Some ''2011'', count_vote = Some 1,
        counts = Some [(''2012'', Count 1), (''2011'', Count 1)]\<rparr>"
  by code_simp

section \<open>Classification metrics\<close>

text \<open>
  The labels compared are the ground truth \<open>testItem.metadata[field]\<close>, a string or
  \<open>undefined\<close>, and the prediction's label, a string or \<open>null\<close>. A template literal writes
  the two special values as the words \<open>undefined\<close> and \<open>null\<close>.
\<close>

datatype jsval = JUndefined | JNull | JStr string

fun template :: "jsval \<Rightarrow> string" where
  "template JUndefined = ''undefined''"
| "template JNull = ''null''"
| "template (JStr s) = s"

text \<open>
  \<^verbatim>\<open>
  createConfusionMatrix(groundTruth, predictions) {
    const matrix = new Map();
    let correct = 0;
    for (let i = 0; i < groundTruth.length; i++) {
      const actual = groundTruth[i];
      const predicted = predictions[i];
      const key = `${actual}_${predicted}`;
      matrix.set(key, (matrix.get(key) || 0) + 1);
      if (actual === predicted) correct++;
    }
    return { matrix, correct, total: groundTruth.length };
  }
  \<close>
  The matrix is a \<open>Map\<close> from the key string to the count, its entries in insertion order.
  Where \<open>predictions\<close> is the shorter array, \<open>predictions[i]\<close> is \<open>undefined\<close>.
\<close>

record confusion =
  matrix :: "(string \<times> nat) list"
  correct :: nat
  total :: nat

definition pair_key :: "jsval \<Rightarrow> jsval \<Rightarrow> string" where
  "pair_key actual predicted = template actual @ ''_'' @ template predicted"

fun matrix_get :: "(string \<times> nat) list \<Rightarrow> string \<Rightarrow> nat option" where
  "matrix_get m key = map_of m key"

fun matrix_set :: "(string \<times> nat) list \<Rightarrow> string \<Rightarrow> nat \<Rightarrow> (string \<times> nat) list" where
  "matrix_set [] key v = [(key, v)]"
| "matrix_set ((k, w) # m) key v = (if k = key then (k, v) # m else (k, w) # matrix_set m key v)"

definition or_zero :: "nat option \<Rightarrow> nat" where
  "or_zero v = (case v of None \<Rightarrow> 0 | Some n \<Rightarrow> n)"

fun confusion_loop ::
  "jsval list \<Rightarrow> jsval list \<Rightarrow> (string \<times> nat) list \<times> nat \<Rightarrow> (string \<times> nat) list \<times> nat" where
  "confusion_loop [] predictions (m, c) = (m, c)"
| "confusion_loop (actual # groundTruth) predictions (m, c) =
     (let predicted = (case predictions of [] \<Rightarrow> JUndefined | p # ps \<Rightarrow> p);
          key = pair_key actual predicted;
          m' = matrix_set m key (or_zero (matrix_get m key) + 1);
          c' = (if actual = predicted then c + 1 else c)
      in confusion_loop groundTruth (tl predictions) (m', c'))"

definition createConfusionMatrix :: "jsval list \<Rightarrow> jsval list \<Rightarrow> confusion" where
  "createConfusionMatrix groundTruth predictions =
     (let (m, c) = confusion_loop groundTruth predictions ([], 0)
      in \<lparr>matrix = m, correct = c, total = length groundTruth\<rparr>)"

text \<open>
  \<^verbatim>\<open>
  computeClassificationMetrics(groundTruth, predictions) {
    const confusion = this.createConfusionMatrix(groundTruth, predictions);
    const metrics = {};
    metrics.accuracy = confusion.correct / confusion.total;
    const classes = [...new Set([...groundTruth, ...predictions])];
    let avgPrecision = 0, avgRecall = 0, avgF1 = 0;
    for (const cls of classes) {
      const tp = confusion.matrix.get(`${cls}_${cls}`) || 0;
      const fp = Array.from(confusion.matrix.keys())
        .filter(key => key.endsWith(`_${cls}`) && !key.startsWith(`${cls}_`))
        .reduce((sum, key) => sum + confusion.matrix.get(key), 0);
      const fn = Array.from(confusion.matrix.keys())
        .filter(key => key.startsWith(`${cls}_`) && !key.endsWith(`_${cls}`))
        .reduce((sum, key) => sum + confusion.matrix.get(key), 0);
      const precision = tp > 0 ? tp / (tp + fp) : 0;
      const recall = tp > 0 ? tp / (tp + fn) : 0;
      const f1 = precision + recall > 0 ? 2 * precision * recall / (precision + recall) : 0;
      avgPrecision += precision;
      avgRecall += recall;
      avgF1 += f1;
    }
    metrics.macro_precision = avgPrecision / classes.length;
    metrics.macro_recall = avgRecall / classes.length;
    metrics.macro_f1 = avgF1 / classes.length;
    return metrics;
  }
  \<close>
  The counts are integers far below \<open>2 ^ 53\<close>, where the arithmetic of numbers is exact;
  the quotients and the running sums are rounded. A \<open>Set\<close> keeps its values in first-seen
  order. A quotient \<open>0 / 0\<close> is \<open>NaN\<close>: \<open>None\<close>.
\<close>

record metrics =
  accuracy :: "rat option"
  macro_precision :: "rat option"
  macro_recall :: "rat option"
  macro_f1 :: "rat option"

definition class_tp :: "confusion \<Rightarrow> jsval \<Rightarrow> nat" where
  "class_tp confusion cls = or_zero (matrix_get (matrix confusion) (pair_key cls cls))"

definition class_fp :: "confusion \<Rightarrow> jsval \<Rightarrow> nat" where
  "class_fp confusion cls =
     foldl (\<lambda>sum key. sum + or_zero (matrix_get (matrix confusion) key)) 0
       (filter (\<lambda>key. suffix (''_'' @ template cls) key \<and> \<not> prefix (template cls @ ''_'') key)
          (map fst (matrix confusion)))"

definition class_fn :: "confusion \<Rightarrow> jsval \<Rightarrow> nat" where
  "class_fn confusion cls =
     foldl (\<lambda>sum key. sum + or_zero (matrix_get (matrix confusion) key)) 0
       (filter (\<lambda>key. prefix (template cls @ ''_'') key \<and> \<not> suffix (''_'' @ template cls) key)
          (map fst (matrix confusion)))"

definition class_precision :: "confusion \<Rightarrow> jsval \<Rightarrow> rat" where
  "class_precision confusion cls =
     (let tp = class_tp confusion cls; fp = class_fp confusion cls
      in if tp > 0 then js_div (of_nat tp) (of_nat (tp + fp)) else 0)"

definition class_recall :: "confusion \<Rightarrow> jsval \<Rightarrow> rat" where
  "class_recall confusion cls =
     (let tp = class_tp confusion cls; fn = class_fn confusion cls
      in if tp > 0 then js_div (of_nat tp) (of_nat (tp + fn)) else 0)"

definition class_f1 :: "confusion \<Rightarrow> jsval \<Rightarrow> rat" where
  "class_f1 confusion cls =
     (let precision = class_precision confusion cls; recall = class_recall confusion cls
      in if js_add precision recall > 0
         then js_div (js_mul (js_mul 2 precision) recall) (js_add precision recall) else 0)"

fun classes_loop :: "confusion \<Rightarrow> jsval list \<Rightarrow> rat \<times> rat \<times> rat \<Rightarrow> rat \<times> rat \<times> rat" where
  "classes_loop confusion [] (avgPrecision, avgRecall, avgF1) = (avgPrecision, avgRecall, avgF1)"
| "classes_loop confusion (cls # classes) (avgPrecision, avgRecall, avgF1) =
     classes_loop confusion classes
       (js_add avgPrecision (class_precision confusion cls),
        js_add avgRecall (class_recall confusion cls),
        js_add avgF1 (class_f1 confusion cls))"

definition number_div :: "rat \<Rightarrow> nat \<Rightarrow> rat option" where
  "number_div x n = (if n = 0 then None else Some (js_div x (of_nat n)))"

definition computeClassificationMetrics :: "jsval list \<Rightarrow> jsval list \<Rightarrow> metrics" where
  "computeClassificationMetrics groundTruth predictions =
     (let confusion = createConfusionMatrix groundTruth predictions;
          classes = first_seen (groundTruth @ predictions);
          (avgPrecision, avgRecall, avgF1) = classes_loop confusion classes (0, 0, 0)
      in \<lparr>accuracy = number_div (of_nat (correct confusion)) (total confusion),
          macro_precision = number_div avgPrecision (length classes),
          macro_recall = number_div avgRecall (length classes),
          macro_f1 = number_div avgF1 (length classes)\<rparr>)"

text \<open>
  The entries that the metrics read as the diagonal of the matrix are those under the keys
  \<open>cls_cls\<close> of the classes; \<open>entries_sum\<close> adds all entries.
\<close>

definition diagonal_sum :: "confusion \<Rightarrow> jsval list \<Rightarrow> nat" where
  "diagonal_sum confusion classes = sum_list (map (class_tp confusion) classes)"

definition entries_sum :: "confusion \<Rightarrow> nat" where
  "entries_sum confusion = sum_list (map snd (matrix confusion))"

subsection \<open>The entries of the matrix\<close>

lemma matrix_set_sum:
  "sum_list (map snd (matrix_set m key (or_zero (matrix_get m key) + 1)))
   = sum_list (map snd m) + 1"
  by (induction m) (auto simp: or_zero_def)

lemma confusion_loop_sum:
  "sum_list (map snd (fst (confusion_loop groundTruth predictions (m, c))))
   = sum_list (map snd m) + length groundTruth"
proof (induction groundTruth arbitrary: predictions m c)
  case Nil
  then show ?case by simp
next
  case (Cons actual groundTruth)
  show ?case
    by (simp only: confusion_loop.simps Let_def Cons.IH matrix_set_sum) simp
qed

lemma entries_sum_total:
  "entries_sum (createConfusionMatrix groundTruth predictions) = length groundTruth"
  using confusion_loop_sum [of groundTruth predictions "[]" 0]
  by (simp add: entries_sum_def createConfusionMatrix_def case_prod_beta)

lemma confusion_loop_correct:
  "length groundTruth \<le> n \<Longrightarrow>
   snd (confusion_loop groundTruth predictions (m, c))
   = c + length (filter (\<lambda>(actual, predicted). actual = predicted)
           (zip groundTruth (predictions @ replicate n JUndefined)))"
proof (induction groundTruth arbitrary: predictions m c n)
  case Nil
  then show ?case by simp
next
  case (Cons actual groundTruth)
  show ?case
  proof (cases predictions)
    case Nil
    from Cons.prems obtain n' where n: "n = Suc n'" and le: "length groundTruth \<le> n'"
      by (cases n) auto
    from Cons.IH [OF le, of "[]"] Nil n show ?thesis by (simp add: Let_def)
  next
    case (Cons p ps)
    from Cons.prems have le: "length groundTruth \<le> n" by simp
    from Cons.IH [OF le, of ps] Cons show ?thesis by (simp add: Let_def)
  qed
qed

lemma correct_count:
  "correct (createConfusionMatrix groundTruth predictions)
   = length (filter (\<lambda>(actual, predicted). actual = predicted)
       (zip groundTruth (predictions @ replicate (length groundTruth) JUndefined)))"
  using confusion_loop_correct [of groundTruth "length groundTruth" predictions "[]" 0]
  by (simp add: createConfusionMatrix_def case_prod_beta)

subsection \<open>The averages\<close>

lemma classes_loop_sums:
  "classes_loop confusion classes (p, r, f)
   = (foldl js_add p (map (class_precision confusion) classes),
      foldl js_add r (map (class_recall confusion) classes),
      foldl js_add f (map (class_f1 confusion) classes))"
  by (induction classes arbitrary: p r f) simp_all

lemma macro_average:
  fixes groundTruth predictions
  defines "confusion \<equiv> createConfusionMatrix groundTruth predictions"
    and "classes \<equiv> first_seen (groundTruth @ predictions)"
  shows "distinct classes \<and> set classes = set groundTruth \<union> set predictions
    \<and> macro_precision (computeClassificationMetrics groundTruth predictions)
        = number_div (foldl js_add 0 (map (class_precision confusion) classes)) (length classes)
    \<and> macro_recall (computeClassificationMetrics groundTruth predictions)
        = number_div (foldl js_add 0 (map (class_recall confusion) classes)) (length classes)
    \<and> macro_f1 (computeClassificationMetrics groundTruth predictions)
        = number_div (foldl js_add 0 (map (class_f1 confusion) classes)) (length classes)"
  by (simp add: computeClassificationMetrics_def Let_def classes_loop_sums confusion_def
      classes_def distinct_first_seen set_first_seen)

lemma zero_tp_contributes_zero:
  assumes "class_tp confusion cls = 0"
  shows "class_precision confusion cls = 0 \<and> class_recall confusion cls = 0
    \<and> class_f1 confusion cls = 0"
  using assms
  by (simp add: class_precision_def class_recall_def class_f1_def js_add_def fl_zero)

subsection \<open>The diagonal, for labels that the key keeps apart\<close>

lemma matrix_set_get:
  "or_zero (matrix_get (matrix_set m key v) k) = (if k = key then v else or_zero (matrix_get m k))"
  by (induction m) (auto simp: or_zero_def)

lemma confusion_loop_entry:
  "length groundTruth \<le> n \<Longrightarrow>
   or_zero (matrix_get (fst (confusion_loop groundTruth predictions (m, c))) k)
   = or_zero (matrix_get m k)
     + length (filter (\<lambda>(actual, predicted). pair_key actual predicted = k)
         (zip groundTruth (predictions @ replicate n JUndefined)))"
proof (induction groundTruth arbitrary: predictions m c n)
  case Nil
  then show ?case by simp
next
  case (Cons actual groundTruth)
  show ?case
  proof (cases predictions)
    case Nil
    from Cons.prems obtain n' where n: "n = Suc n'" and le: "length groundTruth \<le> n'"
      by (cases n) auto
    show ?thesis
      unfolding Nil n
      by (simp only: confusion_loop.simps Let_def Cons.IH [OF le] matrix_set_get) simp
  next
    case (Cons p ps)
    from Cons.prems have le: "length groundTruth \<le> n" by simp
    show ?thesis
      unfolding Cons
      by (simp only: confusion_loop.simps Let_def Cons.IH [OF le] matrix_set_get) simp
  qed
qed

lemma class_tp_count:
  "class_tp (createConfusionMatrix groundTruth predictions) cls
   = length (filter (\<lambda>(actual, predicted). pair_key actual predicted = pair_key cls cls)
       (zip groundTruth (predictions @ replicate (length groundTruth) JUndefined)))"
  using confusion_loop_entry [of groundTruth "length groundTruth" predictions "[]" 0 "pair_key cls cls"]
  by (simp add: class_tp_def createConfusionMatrix_def case_prod_beta or_zero_def)

lemma append_underscore_inject:
  assumes "x @ CHR ''_'' # y = u @ CHR ''_'' # v"
    and "CHR ''_'' \<notin> set x" and "CHR ''_'' \<notin> set u"
  shows "x = u \<and> y = v"
  using assms
proof (induction x arbitrary: u)
  case Nil
  then show ?case by (cases u) auto
next
  case (Cons a x)
  then show ?case by (cases u) auto
qed

lemma pair_key_inject:
  assumes "pair_key a p = pair_key c d"
    and "CHR ''_'' \<notin> set (template a)" and "CHR ''_'' \<notin> set (template c)"
  shows "template a = template c \<and> template p = template d"
  using append_underscore_inject [of "template a" "template p" "template c" "template d"] assms
  by (simp add: pair_key_def)

lemma sum_list_indicator:
  "distinct cs \<Longrightarrow> sum_list (map (\<lambda>c. if c = a then 1 else 0) cs) = (if a \<in> set cs then 1 else (0::nat))"
  by (induction cs) auto

lemma diagonal_pairs:
  assumes "distinct classes" and "fst ` set pairs \<subseteq> set classes"
  shows "sum_list (map (\<lambda>c. length (filter (\<lambda>(a, p). a = c \<and> p = c) pairs)) classes)
    = length (filter (\<lambda>(a, p). a = p) pairs)"
  using assms(2)
proof (induction pairs)
  case Nil
  then show ?case by simp
next
  case (Cons ap pairs)
  obtain a p where ap: "ap = (a, p)" by (cases ap)
  from Cons.prems ap have a: "a \<in> set classes" and rest: "fst ` set pairs \<subseteq> set classes"
    by auto
  have "sum_list (map (\<lambda>c. length (filter (\<lambda>(a, p). a = c \<and> p = c) (ap # pairs))) classes)
      = sum_list (map (\<lambda>c. (if c = a then (if a = p then 1 else 0) else 0)
          + length (filter (\<lambda>(a, p). a = c \<and> p = c) pairs)) classes)"
    by (intro arg_cong [where f = sum_list] map_cong) (auto simp: ap)
  also have "\<dots> = sum_list (map (\<lambda>c. if c = a then (if a = p then 1 else 0) else 0) classes)
      + sum_list (map (\<lambda>c. length (filter (\<lambda>(a, p). a = c \<and> p = c) pairs)) classes)"
    by (simp add: sum_list_addf)
  also have "sum_list (map (\<lambda>c. if c = a then (if a = p then 1 else 0) else 0) classes)
      = (if a = p then 1 else (0::nat))"
    using sum_list_indicator [OF assms(1), of a] a by (cases "a = p") simp_all
  finally show ?case using Cons.IH [OF rest] by (simp add: ap)
qed

lemma diagonal_sum_correct:
  fixes groundTruth predictions
  defines "labels \<equiv> set groundTruth \<union> set predictions \<union> {JUndefined}"
  assumes inj: "inj_on template labels"
    and plain: "\<And>l. l \<in> labels \<Longrightarrow> CHR ''_'' \<notin> set (template l)"
  shows "diagonal_sum (createConfusionMatrix groundTruth predictions)
           (first_seen (groundTruth @ predictions))
         = correct (createConfusionMatrix groundTruth predictions)"
proof -
  define pairs where
    "pairs = zip groundTruth (predictions @ replicate (length groundTruth) JUndefined)"
  define classes where "classes = first_seen (groundTruth @ predictions)"
  have cl: "set classes = set groundTruth \<union> set predictions" and d: "distinct classes"
    by (simp_all add: classes_def set_first_seen distinct_first_seen)
  have mem: "a \<in> labels \<and> p \<in> labels" if "(a, p) \<in> set pairs" for a p
  proof -
    from that have "a \<in> set groundTruth"
      and "p \<in> set (predictions @ replicate (length groundTruth) JUndefined)"
      unfolding pairs_def by (auto dest: set_zip_leftD set_zip_rightD)
    then show ?thesis by (auto simp: labels_def)
  qed
  have eq: "(pair_key a p = pair_key c c) = (a = c \<and> p = c)"
    if "(a, p) \<in> set pairs" and "c \<in> set classes" for a p c
  proof
    assume k: "pair_key a p = pair_key c c"
    from mem [OF that(1)] that(2) have in_l: "a \<in> labels" "p \<in> labels" "c \<in> labels"
      by (auto simp: cl labels_def)
    from pair_key_inject [OF k plain [OF in_l(1)] plain [OF in_l(3)]]
    have "template a = template c" "template p = template c" by simp_all
    with inj in_l show "a = c \<and> p = c" by (auto dest: inj_onD)
  qed simp
  have "filter (\<lambda>(a, p). pair_key a p = pair_key c c) pairs
      = filter (\<lambda>(a, p). a = c \<and> p = c) pairs" if "c \<in> set classes" for c
    using eq [OF _ that] by (intro filter_cong) auto
  then have "diagonal_sum (createConfusionMatrix groundTruth predictions) classes
      = sum_list (map (\<lambda>c. length (filter (\<lambda>(a, p). a = c \<and> p = c) pairs)) classes)"
    unfolding diagonal_sum_def
    by (intro arg_cong [where f = sum_list] map_cong) (simp_all add: class_tp_count pairs_def)
  also have "\<dots> = length (filter (\<lambda>(a, p). a = p) pairs)"
  proof (rule diagonal_pairs [OF d])
    show "fst ` set pairs \<subseteq> set classes"
      unfolding pairs_def cl by (auto dest: set_zip_leftD)
  qed
  also have "\<dots> = correct (createConfusionMatrix groundTruth predictions)"
    by (simp add: correct_count pairs_def)
  finally show ?thesis by (simp add: classes_def)
qed

text \<open>
  Claim C5. Macro precision, recall and F1 are averaged, unweighted, over the union of the
  actual and the predicted labels (\<open>macro_average\<close>), and a class whose entry \<open>cls_cls\<close> is 0
  adds 0 to each sum (\<open>zero_tp_contributes_zero\<close>). That entry is not always the number of
  true positives: the key joins the two labels with \<open>_\<close>, so the pair (\<open>a\<close>, \<open>b_a_b\<close>) is
  stored under the key of the pair (\<open>a_b\<close>, \<open>a_b\<close>). Below no pair is predicted correctly, so
  every class has zero true positives and each macro average of the claim is 0; the class
  \<open>a_b\<close> is given one true positive and the averages are not 0.
\<close>

theorem macro_average_key_collision:
  "computeClassificationMetrics [JStr ''a'', JStr ''a_b''] [JStr ''b_a_b'', JStr ''x'']
   = \<lparr>accuracy = Some 0, macro_precision = Some (1 / 4), macro_recall = Some (1 / 8),
      macro_f1 = Some (6004799503160661 / 36028797018963968)\<rparr>
   \<and> class_tp (createConfusionMatrix [JStr ''a'', JStr ''a_b''] [JStr ''b_a_b'', JStr ''x''])
        (JStr ''a_b'') = 1"
  by code_simp

text \<open>
  Claim C6. The sum over all entries of the matrix is the number of compared pairs
  (\<open>entries_sum_total\<close>). The diagonal sum is the number of correct predictions while no
  label contains \<open>_\<close> and no string label is the word \<open>null\<close> or \<open>undefined\<close> beside the
  value (\<open>diagonal_sum_correct\<close>); otherwise the key of a pair of different labels can be
  the key \<open>cls_cls\<close> of a class. Below, one of
  the two pairs is correct and the one entry of the matrix, which is the diagonal entry of
  the class \<open>a_b\<close>, is 2.
\<close>

theorem diagonal_sum_key_collision:
  "createConfusionMatrix [JStr ''a'', JStr ''a_b''] [JStr ''b_a_b'', JStr ''a_b'']
   = \<lparr>matrix = [(''a_b_a_b'', 2)], correct = 1, total = 2\<rparr>
   \<and> diagonal_sum (createConfusionMatrix [JStr ''a'', JStr ''a_b''] [JStr ''b_a_b'', JStr ''a_b''])
        (first_seen ([JStr ''a'', JStr ''a_b''] @ [JStr ''b_a_b'', JStr ''a_b''])) = 2"
  by code_simp

section \<open>DataSplitter\<close>

text \<open>
  A splitter holds its seed and the generator made from it; the generator's state is the
  only thing a call changes. Every operation takes the splitter and returns it with the
  state it leaves behind. The constructor's default seed is 42.
\<close>

record DataSplitter =
  randomSeed :: int
  rng_state :: int

definition new_DataSplitter :: "int option \<Rightarrow> DataSplitter" where
  "new_DataSplitter seed =
     (let randomSeed = (case seed of None \<Rightarrow> 42 | Some s \<Rightarrow> s)
      in \<lparr>randomSeed = randomSeed, rng_state = createSeededRandom randomSeed\<rparr>)"

definition this_rng :: "DataSplitter \<Rightarrow> rat \<times> DataSplitter" where
  "this_rng this =
     (let drawn = rng (rng_state this) in (fst drawn, this\<lparr>rng_state := snd drawn\<rparr>))"

text \<open>
  An array that the splitter works on holds rows; an element can also be \<open>undefined\<close>
  (\<open>None\<close>), which is what reading past the end gives and what writing past the end leaves
  in between. A negative index names no element: reading it gives \<open>undefined\<close> and writing
  it leaves the elements as they are.
\<close>

definition array_get :: "'a option list \<Rightarrow> int \<Rightarrow> 'a option" where
  "array_get a j = (if 0 \<le> j \<and> j < int (length a) then a ! nat j else None)"

definition array_set :: "'a option list \<Rightarrow> int \<Rightarrow> 'a option \<Rightarrow> 'a option list" where
  "array_set a j v =
     (if j < 0 then a
      else if j < int (length a) then a[nat j := v]
      else a @ replicate (nat j - length a) None @ [v])"

text \<open>
  \<^verbatim>\<open>
  shuffleArray(array) {
    for (let i = array.length - 1; i > 0; i--) {
      const j = Math.floor(this.rng() * (i + 1));
      [array[i], array[j]] = [array[j], array[i]];
    }
    return array;
  }
  \<close>
  The right-hand side of the swap is read before either element is written.
\<close>

fun shuffle_loop :: "nat \<Rightarrow> 'a option list \<Rightarrow> DataSplitter \<Rightarrow> 'a option list \<times> DataSplitter" where
  "shuffle_loop 0 array this = (array, this)"
| "shuffle_loop (Suc i) array this =
     (let drawn = this_rng this;
          j = Math_floor (js_mul (fst drawn) (of_nat (Suc i + 1)));
          aj = array_get array j;
          ai = array_get array (int (Suc i));
          array' = array_set (array_set array (int (Suc i)) aj) j ai
      in shuffle_loop i array' (snd drawn))"

definition shuffleArray :: "DataSplitter \<Rightarrow> 'a option list \<Rightarrow> 'a option list \<times> DataSplitter" where
  "shuffleArray this array = shuffle_loop (length array - 1) array this"

text \<open>
  \<^verbatim>\<open>
  extractFieldValue(item, field) {
    return item.metadata ? item.metadata[field] : item[field];
  }
  \<close>
  A row always has its metadata object, and its field is read as every property of an
  object is (\<open>property_get\<close>): the row's own string, what \<open>Object.prototype\<close> has under
  this name, or \<open>undefined\<close>. Reading a property of \<open>undefined\<close> throws a \<open>TypeError\<close>.
\<close>

datatype js_error = Error string | TypeError | RangeError

definition extractFieldValue :: "row option \<Rightarrow> string \<Rightarrow> js_error + js_value option" where
  "extractFieldValue item field =
     (case item of None \<Rightarrow> Inl TypeError | Some r \<Rightarrow> Inr (property_get (metadata r) field))"

record partition =
  train :: "row option list"
  test :: "row option list"

record split_info =
  total_samples :: nat
  train_samples :: int
  test_samples :: int
  test_ratio :: "rat option"

record split = partition +
  split_info :: split_info

text \<open>
  \<^verbatim>\<open>
  trainTestSplit(data, testSize = 0.2, shuffle = true) {
    const dataCopy = shuffle ? this.shuffleArray([...data]) : [...data];
    const testCount = Math.floor(data.length * testSize);
    return {
      train: dataCopy.slice(testCount),
      test: dataCopy.slice(0, testCount),
      split_info: {
        total_samples: data.length,
        train_samples: dataCopy.length - testCount,
        test_samples: testCount,
        test_ratio: testCount / data.length
      }
    };
  }
  \<close>
  The function has no check of \<open>testSize\<close> and no \<open>throw\<close>. For an empty \<open>data\<close> the ratio
  \<open>testCount / data.length\<close> is not a finite number (\<open>None\<close>).
\<close>

definition trainTestSplit :: "DataSplitter \<Rightarrow> row list \<Rightarrow> rat \<Rightarrow> bool \<Rightarrow> split \<times> DataSplitter" where
  "trainTestSplit this data testSize shuffle =
     (let shuffled = (if shuffle then shuffleArray this (map Some data)
                      else (map Some data, this));
          dataCopy = fst shuffled;
          testCount = Math_floor (js_mul (of_nat (length data)) testSize)
      in (\<lparr>train = slice_from dataCopy testCount,
           test = slice dataCopy 0 testCount,
           split_info = \<lparr>total_samples = length data,
                          train_samples = int (length dataCopy) - testCount,
                          test_samples = testCount,
                          test_ratio = (if length data = 0 then None
                                        else Some (js_div (of_int testCount) (of_nat (length data))))\<rparr>\<rparr>,
          snd shuffled))"

text \<open>
  The groups of a stratified operation are a \<open>Map\<close> from the category (the field value,
  possibly \<open>undefined\<close>) to the array of its items, in the order in which the categories
  first occur.
\<close>

fun group_push ::
  "(js_value option \<times> row option list) list \<Rightarrow> js_value option \<Rightarrow> row option
   \<Rightarrow> (js_value option \<times> row option list) list" where
  "group_push [] category item = [(category, [item])]"
| "group_push ((c, items) # groups) category item =
     (if c = category then (c, items @ [item]) # groups
      else (c, items) # group_push groups category item)"

fun group_by ::
  "row option list \<Rightarrow> string \<Rightarrow> (js_value option \<times> row option list) list
   \<Rightarrow> js_error + (js_value option \<times> row option list) list" where
  "group_by [] stratifyField groups = Inr groups"
| "group_by (item # data) stratifyField groups =
     (case extractFieldValue item stratifyField of
        Inl e \<Rightarrow> Inl e
      | Inr category \<Rightarrow> group_by data stratifyField (group_push groups category item))"

text \<open>
  \<^verbatim>\<open>
  stratifiedSplit(data, testSize = 0.2, stratifyField, minSamplesPerCategory = 2) {
    const groups = new Map();
    for (const item of data) { ... groups.get(category).push(item); }
    const train = [];
    const test = [];
    for (const [category, items] of groups) {
      if (items.length < minSamplesPerCategory) {
        train.push(...items);
        continue;
      }
      const shuffled = this.shuffleArray([...items]);
      const testCount = Math.max(1, Math.floor(items.length * testSize));
      const testItems = shuffled.slice(0, testCount);
      const trainItems = shuffled.slice(testCount);
      test.push(...testItems);
      train.push(...trainItems);
    }
    return { train, test, split_info: { total_samples: data.length,
      train_samples: train.length, test_samples: test.length, categories: categoryStats.size, ... } };
  }
  \<close>
  The per-category statistics of \<open>split_info\<close> only describe the result and are left out.
\<close>

record strat_info =
  strat_total_samples :: nat
  strat_train_samples :: nat
  strat_test_samples :: nat
  strat_categories :: nat

record strat_split = partition +
  strat_info :: strat_info

fun stratified_loop ::
  "(js_value option \<times> row option list) list \<Rightarrow> rat \<Rightarrow> int
   \<Rightarrow> row option list \<times> row option list \<Rightarrow> DataSplitter
   \<Rightarrow> (row option list \<times> row option list) \<times> DataSplitter" where
  "stratified_loop [] testSize minSamplesPerCategory (tr, te) this = ((tr, te), this)"
| "stratified_loop ((category, items) # groups) testSize minSamplesPerCategory (tr, te) this =
     (if int (length items) < minSamplesPerCategory
      then stratified_loop groups testSize minSamplesPerCategory (tr @ items, te) this
      else
        let drawn = shuffleArray this items;
            shuffled = fst drawn;
            testCount = max 1 (Math_floor (js_mul (of_nat (length items)) testSize));
            testItems = slice shuffled 0 testCount;
            trainItems = slice_from shuffled testCount
        in stratified_loop groups testSize minSamplesPerCategory
             (tr @ trainItems, te @ testItems) (snd drawn))"

definition stratifiedSplit ::
  "DataSplitter \<Rightarrow> row list \<Rightarrow> rat \<Rightarrow> string \<Rightarrow> int \<Rightarrow> (js_error + strat_split) \<times> DataSplitter" where
  "stratifiedSplit this data testSize stratifyField minSamplesPerCategory =
     (case group_by (map Some data) stratifyField [] of
        Inl e \<Rightarrow> (Inl e, this)
      | Inr groups \<Rightarrow>
          let result = stratified_loop groups testSize minSamplesPerCategory ([], []) this;
              tr = fst (fst result);
              te = snd (fst result)
          in (Inr \<lparr>train = tr, test = te,
                    strat_info = \<lparr>strat_total_samples = length data,
                                   strat_train_samples = length tr,
                                   strat_test_samples = length te,
                                   strat_categories = length groups\<rparr>\<rparr>,
              snd result))"

text \<open>
  \<^verbatim>\<open>
  kFoldSplit(data, k = 5, shuffle = true, stratify = null) {
    if (k < 2) throw new Error('k must be at least 2');
    if (k > data.length) throw new Error('k cannot be larger than dataset size');
    const dataCopy = shuffle ? this.shuffleArray([...data]) : [...data];
    if (stratify) {
      return this.stratifiedKFoldSplit(dataCopy, k, stratify);
    }
    const folds = [];
    const foldSize = Math.floor(data.length / k);
    for (let i = 0; i < k; i++) {
      const start = i * foldSize;
      const end = i === k - 1 ? data.length : start + foldSize; // Last fold gets remaining items
      const testFold = dataCopy.slice(start, end);
      const trainFold = [...dataCopy.slice(0, start), ...dataCopy.slice(end)];
      folds.push({ fold: i + 1, train: trainFold, test: testFold,
                   train_size: trainFold.length, test_size: testFold.length });
    }
    return { folds, fold_info: { k, total_samples: data.length,
        avg_train_size: Math.round(folds.reduce((sum, fold) => sum + fold.train_size, 0) / k),
        avg_test_size: Math.round(folds.reduce((sum, fold) => sum + fold.test_size, 0) / k) } };
  }
  \<close>
  The number of folds \<open>k\<close> is an integer. \<open>Math.round\<close> rounds half up. An average is
  \<open>NaN\<close>, here \<open>None\<close>, when there is no fold (\<open>0 / 0\<close>), which a direct call of
  \<open>stratifiedKFoldSplit\<close> with \<open>k = 0\<close> brings about. The empty string is
  not a field to stratify by: \<open>if (stratify)\<close> is false for it as for \<open>null\<close>.
\<close>

record fold = partition +
  fold :: nat
  train_size :: nat
  test_size :: nat

record fold_info =
  k_info :: int
  stratified :: bool
  stratify_field :: "string option"
  total_samples_info :: nat
  categories :: "nat option"
  avg_train_size :: "int option"
  avg_test_size :: "int option"

record kfold =
  folds :: "fold list"
  fold_info :: fold_info

definition Math_round :: "rat \<Rightarrow> int" where
  "Math_round x = \<lfloor>x + 1 / 2\<rfloor>"

definition avg_size :: "nat list \<Rightarrow> int \<Rightarrow> int option" where
  "avg_size sizes k =
     (if k = 0 then None else Some (Math_round (js_div (of_nat (foldl (+) 0 sizes)) (of_int k))))"

definition fold_bounds :: "int \<Rightarrow> int \<Rightarrow> nat \<Rightarrow> nat \<Rightarrow> int \<times> int" where
  "fold_bounds k foldSize len i =
     (let start = int i * foldSize;
          end = (if int i = k - 1 then int len else start + foldSize)
      in (start, end))"

definition simple_fold :: "row option list \<Rightarrow> int \<Rightarrow> int \<Rightarrow> nat \<Rightarrow> nat \<Rightarrow> fold" where
  "simple_fold dataCopy k foldSize len i =
     (let bounds = fold_bounds k foldSize len i;
          start = fst bounds;
          end = snd bounds;
          testFold = slice dataCopy start end;
          trainFold = slice dataCopy 0 start @ slice_from dataCopy end
      in \<lparr>train = trainFold, test = testFold, fold = i + 1,
          train_size = length trainFold, test_size = length testFold\<rparr>)"

text \<open>
  \<^verbatim>\<open>
  stratifiedKFoldSplit(data, k, stratifyField) {
    const groups = new Map();
    for (const item of data) { ... groups.get(category).push(item); }
    const folds = Array(k).fill().map((_, i) => ({ fold: i + 1, train: [], test: [],
                                                  train_size: 0, test_size: 0 }));
    for (const [category, items] of groups) {
      const shuffled = this.shuffleArray([...items]);
      const foldSize = Math.floor(items.length / k);
      for (let i = 0; i < k; i++) {
        const start = i * foldSize;
        const end = i === k - 1 ? items.length : start + foldSize;
        const testItems = shuffled.slice(start, end);
        const trainItems = [...shuffled.slice(0, start), ...shuffled.slice(end)];
        folds[i].test.push(...testItems);
        folds[i].train.push(...trainItems);
      }
    }
    folds.forEach(fold => { fold.train_size = fold.train.length; fold.test_size = fold.test.length; });
    return { folds, fold_info: { k, stratified: true, stratify_field: stratifyField,
        total_samples: data.length, categories: groups.size, avg_train_size: ..., avg_test_size: ... } };
  }
  \<close>
  \<open>Array(k)\<close> throws a \<open>RangeError\<close> unless \<open>k\<close> is an array length, from 0 to \<open>2 ^ 32 - 1\<close>; the
  groups have been built by then.
\<close>

definition push_category :: "row option list \<Rightarrow> int \<Rightarrow> int \<Rightarrow> nat \<Rightarrow> nat \<Rightarrow> fold \<Rightarrow> fold" where
  "push_category shuffled k foldSize len i f =
     (let bounds = fold_bounds k foldSize len i;
          start = fst bounds;
          end = snd bounds;
          testItems = slice shuffled start end;
          trainItems = slice shuffled 0 start @ slice_from shuffled end
      in f\<lparr>test := test f @ testItems, train := train f @ trainItems\<rparr>)"

fun stratified_kfold_loop ::
  "(js_value option \<times> row option list) list \<Rightarrow> int \<Rightarrow> fold list \<Rightarrow> DataSplitter
   \<Rightarrow> fold list \<times> DataSplitter" where
  "stratified_kfold_loop [] k fs this = (fs, this)"
| "stratified_kfold_loop ((category, items) # groups) k fs this =
     (let drawn = shuffleArray this items;
          shuffled = fst drawn;
          foldSize = Math_floor (js_div (of_nat (length items)) (of_int k));
          fs' = map (\<lambda>i. push_category shuffled k foldSize (length items) i (fs ! i)) [0..<nat k]
      in stratified_kfold_loop groups k fs' (snd drawn))"

definition stratifiedKFoldSplit ::
  "DataSplitter \<Rightarrow> row option list \<Rightarrow> int \<Rightarrow> string \<Rightarrow> (js_error + kfold) \<times> DataSplitter" where
  "stratifiedKFoldSplit this data k stratifyField =
     (case group_by data stratifyField [] of
        Inl e \<Rightarrow> (Inl e, this)
      | Inr groups \<Rightarrow>
          if k < 0 \<or> k > 4294967295 then (Inl RangeError, this)
          else
          let empty = map (\<lambda>i. \<lparr>train = [], test = [], fold = i + 1, train_size = 0, test_size = 0\<rparr>)
                        [0..<nat k];
              filled = stratified_kfold_loop groups k empty this;
              fs = map (\<lambda>f. f\<lparr>train_size := length (train f), test_size := length (test f)\<rparr>)
                     (fst filled)
          in (Inr \<lparr>folds = fs,
                    fold_info = \<lparr>k_info = k, stratified = True, stratify_field = Some stratifyField,
                                  total_samples_info = length data, categories = Some (length groups),
                                  avg_train_size = avg_size (map train_size fs) k,
                                  avg_test_size = avg_size (map test_size fs) k\<rparr>\<rparr>,
              snd filled))"

definition kFoldSplit ::
  "DataSplitter \<Rightarrow> row list \<Rightarrow> int \<Rightarrow> bool \<Rightarrow> string option \<Rightarrow> (js_error + kfold) \<times> DataSplitter" where
  "kFoldSplit this data k shuffle stratify =
     (if k < 2 then (Inl (Error ''k must be at least 2''), this)
      else if k > int (length data) then (Inl (Error ''k cannot be larger than dataset size''), this)
      else
        let shuffled = (if shuffle then shuffleArray this (map Some data)
                        else (map Some data, this));
            dataCopy = fst shuffled;
            this' = snd shuffled
        in case stratify of
             Some (c # cs) \<Rightarrow> stratifiedKFoldSplit this' dataCopy k (c # cs)
           | _ \<Rightarrow>
               let foldSize = Math_floor (js_div (of_nat (length data)) (of_int k));
                   fs = map (simple_fold dataCopy k foldSize (length data)) [0..<nat k]
               in (Inr \<lparr>folds = fs,
                         fold_info = \<lparr>k_info = k, stratified = False, stratify_field = None,
                                       total_samples_info = length data, categories = None,
                                       avg_train_size = avg_size (map train_size fs) k,
                                       avg_test_size = avg_size (map test_size fs) k\<rparr>\<rparr>,
                   this'))"

text \<open>
  \<^verbatim>\<open>
  bootstrapSample(data, numSamples = 1000, sampleSize = null) {
    sampleSize = sampleSize || data.length;
    const samples = [];
    for (let i = 0; i < numSamples; i++) {
      const sample = [];
      for (let j = 0; j < sampleSize; j++) {
        const randomIndex = Math.floor(this.rng() * data.length);
        sample.push(data[randomIndex]);
      }
      samples.push(sample);
    }
    return { samples, sample_info: { ... } };
  }
  \<close>
\<close>

fun sample_loop :: "nat \<Rightarrow> row list \<Rightarrow> DataSplitter \<Rightarrow> row option list \<times> DataSplitter" where
  "sample_loop 0 data this = ([], this)"
| "sample_loop (Suc n) data this =
     (let drawn = this_rng this;
          randomIndex = Math_floor (js_mul (fst drawn) (of_nat (length data)));
          item = array_get (map Some data) randomIndex;
          rest = sample_loop n data (snd drawn)
      in (item # fst rest, snd rest))"

fun samples_loop :: "nat \<Rightarrow> nat \<Rightarrow> row list \<Rightarrow> DataSplitter \<Rightarrow> row option list list \<times> DataSplitter" where
  "samples_loop 0 sampleSize data this = ([], this)"
| "samples_loop (Suc n) sampleSize data this =
     (let sample = sample_loop sampleSize data this;
          rest = samples_loop n sampleSize data (snd sample)
      in (fst sample # fst rest, snd rest))"

definition bootstrapSample ::
  "DataSplitter \<Rightarrow> row list \<Rightarrow> nat \<Rightarrow> nat option \<Rightarrow> row option list list \<times> DataSplitter" where
  "bootstrapSample this data numSamples sampleSize =
     (let size = (case sampleSize of None \<Rightarrow> length data | Some 0 \<Rightarrow> length data | Some n \<Rightarrow> n)
      in samples_loop numSamples size data this)"

text \<open>
  \<^verbatim>\<open>
  leaveOneOutSplit(data) {
    const splits = [];
    for (let i = 0; i < data.length; i++) {
      splits.push({ fold: i + 1, train: [...data.slice(0, i), ...data.slice(i + 1)],
                    test: [data[i]], train_size: data.length - 1, test_size: 1 });
    }
    return { splits, split_info: { ... } };
  }
  \<close>
\<close>

definition leaveOneOutSplit :: "row list \<Rightarrow> fold list" where
  "leaveOneOutSplit data =
     map (\<lambda>i. \<lparr>train = map Some (take i data @ drop (i + 1) data), test = [Some (data ! i)],
               fold = i + 1, train_size = length data - 1, test_size = 1\<rparr>)
       [0..<length data]"

subsection \<open>The index drawn by the shuffle, and the fold size\<close>

lemma fl_exact_div:
  assumes "\<bar>m\<bar> < 2 ^ 53" and "t \<le> 1074"
  shows "fl (of_int m / 2 ^ t) = of_int m / 2 ^ t"
proof (rule fl_exact [of _ m "- int t"])
  show "of_int m / 2 ^ t = (of_int m :: rat) * 2 powi - int t"
    by (simp add: power_int_minus divide_inverse)
  show "\<bar>m\<bar> < 2 ^ 53" by fact
  show "- 1074 \<le> - int t" using assms(2) by simp
qed

lemma fl_below:
  assumes "x \<le> of_int m / 2 ^ t" and "\<bar>m\<bar> < 2 ^ 53" and "t \<le> 1074"
  shows "fl x \<le> of_int m / 2 ^ t"
  using fl_mono [OF assms(1)] fl_exact_div [OF assms(2,3)] by simp

lemma random_index_range:
  assumes n: "1 \<le> n" "n < 2 ^ 32"
  shows "0 \<le> Math_floor (js_mul (fst (rng s)) (of_nat n))"
    and "Math_floor (js_mul (fst (rng s)) (of_nat n)) < int n"
proof -
  let ?r = "fst (rng s)"
  note r = rng_value_range [of s]
  have n0: "(0::rat) < of_nat n" using n(1) by simp
  have "0 \<le> ?r * of_nat n" using r(1) by simp
  then have "0 \<le> fl (?r * of_nat n)" by (rule fl_nonneg)
  then show "0 \<le> Math_floor (js_mul ?r (of_nat n))"
    by (simp add: Math_floor_def js_mul_def)
  have x: "?r * of_nat n \<le> of_nat n - of_nat n / 2 ^ 31"
  proof -
    have "?r * of_nat n \<le> (2147483647 / 2147483648) * of_nat n"
      using r(2) n0 by (intro mult_right_mono) simp_all
    also have "\<dots> = of_nat n - of_nat n / 2 ^ 31" by (simp add: field_simps)
    finally show ?thesis .
  qed
  have "fl (?r * of_nat n) < of_nat n"
  proof (cases "n < 2 ^ 22")
    case True
    have "of_nat n - of_nat n / 2 ^ 31 \<le> (of_int (int n * 2 ^ 31 - 1) :: rat) / 2 ^ 31"
      using n(1) by (simp add: field_simps)
    with x have "?r * of_nat n \<le> of_int (int n * 2 ^ 31 - 1) / 2 ^ 31" by linarith
    moreover have "\<bar>int n * 2 ^ 31 - 1\<bar> < 2 ^ 53" using True n(1) by simp
    ultimately have "fl (?r * of_nat n) \<le> of_int (int n * 2 ^ 31 - 1) / 2 ^ 31"
      by (rule fl_below) simp
    also have "\<dots> < of_nat n" by (simp add: field_simps)
    finally show ?thesis .
  next
    case False
    then have "(2 ^ 22 :: rat) \<le> of_nat n"
      by (metis not_less of_nat_le_iff of_nat_numeral of_nat_power)
    then have "of_nat n - of_nat n / 2 ^ 31 \<le> (of_int (int n * 2 ^ 9 - 1) :: rat) / 2 ^ 9"
      by (simp add: field_simps)
    with x have "?r * of_nat n \<le> of_int (int n * 2 ^ 9 - 1) / 2 ^ 9" by linarith
    moreover have "\<bar>int n * 2 ^ 9 - 1\<bar> < 2 ^ 53" using n by simp
    ultimately have "fl (?r * of_nat n) \<le> of_int (int n * 2 ^ 9 - 1) / 2 ^ 9"
      by (rule fl_below) simp
    also have "\<dots> < of_nat n" by (simp add: field_simps)
    finally show ?thesis .
  qed
  then show "Math_floor (js_mul ?r (of_nat n)) < int n"
    by (simp add: Math_floor_def js_mul_def floor_less_iff)
qed

lemma floor_js_div:
  assumes N: "N < 2 ^ 32" and k: "1 \<le> k" "k < 2 ^ 32"
  shows "Math_floor (js_div (of_nat N) (of_int k)) = int N div k"
proof -
  define q where "q = int N div k"
  define r where "r = int N mod k"
  have Nqr: "int N = q * k + r" and r: "0 \<le> r" "r \<le> k - 1"
    using k(1) by (simp_all add: q_def r_def)
  have q0: "0 \<le> q" using k(1) by (simp add: q_def pos_imp_zdiv_nonneg_iff)
  have qk: "q * k \<le> int N" using Nqr r(1) by simp
  have qN: "q \<le> int N"
  proof -
    have "q * 1 \<le> q * k" using q0 k(1) by (intro mult_left_mono) simp_all
    with qk show ?thesis by simp
  qed
  have kpos: "(0::rat) < of_int k" using k(1) by simp
  let ?x = "(of_nat N :: rat) / of_int k"
  have xeq: "?x = of_int q + of_int r / of_int k"
    using kpos Nqr by (simp add: field_simps) (metis of_int_add of_int_mult of_int_of_nat_eq)
  have lo: "of_int q \<le> fl ?x"
  proof -
    have "of_int q \<le> ?x" using r(1) kpos by (simp add: xeq)
    then have "fl (of_int q) \<le> fl ?x" by (rule fl_mono)
    moreover have "fl (of_int q) = of_int q"
      using q0 qN N by (intro fl_of_int) simp
    ultimately show ?thesis by simp
  qed
  have xle: "?x \<le> of_int q + 1 - 1 / of_int k"
  proof -
    have "(of_int r :: rat) \<le> of_int (k - 1)" using r(2) by (simp only: of_int_le_iff)
    then have "of_int r / (of_int k :: rat) \<le> of_int (k - 1) / of_int k"
      using kpos by (intro divide_right_mono) (assumption, simp)
    also have "\<dots> = 1 - 1 / of_int k" using kpos by (simp add: field_simps)
    finally show ?thesis by (simp add: xeq)
  qed
  have hi: "fl ?x < of_int q + 1"
  proof (cases "q + 1 \<le> 2 ^ 21")
    case True
    have "(of_int k :: rat) \<le> 2 ^ 32"
      using k(2) by (metis less_imp_le of_int_le_iff of_int_numeral of_int_power)
    then have "1 / 2 ^ 32 \<le> 1 / (of_int k :: rat)"
      using kpos by (intro divide_left_mono) simp_all
    with xle have "?x \<le> of_int q + 1 - 1 / 2 ^ 32" by linarith
    also have "\<dots> = of_int ((q + 1) * 2 ^ 32 - 1) / 2 ^ 32" by (simp add: field_simps)
    finally have "?x \<le> of_int ((q + 1) * 2 ^ 32 - 1) / 2 ^ 32" .
    moreover have "\<bar>(q + 1) * 2 ^ 32 - 1\<bar> < 2 ^ 53" using True q0 by simp
    ultimately have "fl ?x \<le> of_int ((q + 1) * 2 ^ 32 - 1) / 2 ^ 32"
      by (rule fl_below) simp
    also have "\<dots> < of_int q + 1" by (simp add: field_simps)
    finally show ?thesis .
  next
    case False
    then have qbig: "2 ^ 21 \<le> q" by simp
    have "k \<le> 2 ^ 11"
    proof (rule ccontr)
      assume "\<not> k \<le> 2 ^ 11"
      then have "2 ^ 11 + 1 \<le> k" by simp
      then have "2 ^ 21 * (2 ^ 11 + 1) \<le> q * k"
        using qbig by (intro mult_mono) simp_all
      with qk N show False by simp
    qed
    then have "(of_int k :: rat) \<le> 2 ^ 11"
      by (metis of_int_le_iff of_int_numeral of_int_power)
    then have "1 / 2 ^ 11 \<le> 1 / (of_int k :: rat)"
      using kpos by (intro divide_left_mono) simp_all
    with xle have "?x \<le> of_int q + 1 - 1 / 2 ^ 11" by linarith
    also have "\<dots> = of_int ((q + 1) * 2 ^ 11 - 1) / 2 ^ 11" by (simp add: field_simps)
    finally have "?x \<le> of_int ((q + 1) * 2 ^ 11 - 1) / 2 ^ 11" .
    moreover have "\<bar>(q + 1) * 2 ^ 11 - 1\<bar> < 2 ^ 53" using qN N q0 by simp
    ultimately have "fl ?x \<le> of_int ((q + 1) * 2 ^ 11 - 1) / 2 ^ 11"
      by (rule fl_below) simp
    also have "\<dots> < of_int q + 1" by (simp add: field_simps)
    finally show ?thesis .
  qed
  have "\<lfloor>fl ?x\<rfloor> = q"
    using lo hi by (simp add: floor_unique)
  then show ?thesis by (simp add: Math_floor_def js_div_def q_def)
qed

subsection \<open>The shuffle is a permutation\<close>

lemma this_rng_value: "fst (this_rng this) = fst (rng (rng_state this))"
  by (simp add: this_rng_def Let_def)

lemma swap_in_range:
  assumes "i < length a" and "0 \<le> j" and "nat j < length a"
  shows "array_set (array_set a (int i) (array_get a j)) j (array_get a (int i))
    = a[i := a ! nat j, nat j := a ! i]"
  using assms by (simp add: array_set_def array_get_def nat_less_iff)

lemma shuffle_loop_mset:
  assumes "i < length a" and "length a < 2 ^ 32"
  shows "mset (fst (shuffle_loop i a this)) = mset a
    \<and> length (fst (shuffle_loop i a this)) = length a"
  using assms
proof (induction i arbitrary: a this)
  case 0
  then show ?case by simp
next
  case (Suc i)
  define j where "j = Math_floor (js_mul (fst (this_rng this)) (of_nat (Suc i + 1)))"
  define a' where "a' = a[Suc i := a ! nat j, nat j := a ! Suc i]"
  have n: "1 \<le> Suc i + 1" "Suc i + 1 < 2 ^ 32" using Suc.prems by simp_all
  from random_index_range [OF n, of "rng_state this"]
  have j: "0 \<le> j" "j < int (Suc i + 1)" by (simp_all add: j_def this_rng_value)
  then have jl: "nat j < length a" using Suc.prems(1) by linarith
  have step: "shuffle_loop (Suc i) a this = shuffle_loop i a' (snd (this_rng this))"
    using swap_in_range [OF Suc.prems(1) j(1) jl]
    by (simp add: Let_def j_def a'_def)
  have "mset a' = mset a"
    unfolding a'_def using Suc.prems(1) jl by (simp add: mset_swap)
  moreover have la: "length a' = length a" by (simp add: a'_def)
  moreover have "i < length a'" "length a' < 2 ^ 32" using Suc.prems la by simp_all
  note Suc.IH [OF this, of "snd (this_rng this)"]
  ultimately show ?case unfolding step by simp
qed

lemma shuffleArray_mset:
  assumes "length a < 2 ^ 32"
  shows "mset (fst (shuffleArray this a)) = mset a"
    and "length (fst (shuffleArray this a)) = length a"
proof -
  have "mset (fst (shuffleArray this a)) = mset a \<and> length (fst (shuffleArray this a)) = length a"
  proof (cases a)
    case Nil
    then show ?thesis by (simp add: shuffleArray_def)
  next
    case (Cons x xs)
    then have "length a - 1 < length a" by simp
    from shuffle_loop_mset [OF this assms] show ?thesis by (simp add: shuffleArray_def)
  qed
  then show "mset (fst (shuffleArray this a)) = mset a"
    and "length (fst (shuffleArray this a)) = length a" by simp_all
qed

subsection \<open>Slices that tile an array\<close>

lemma slice_nat:
  "slice a (int s) (int e) = take (min e (length a) - min s (length a)) (drop (min s (length a)) a)"
  by (simp add: slice_def slice_index_def Let_def)

lemma slice_from_nat: "slice_from a (int e) = drop e a"
  by (simp add: slice_from_def slice_index_def min_def)

lemma tile_prefix:
  "concat (map (\<lambda>i. take F (drop (i * F) xs)) [0..<m]) = take (m * F) xs"
proof (induction m)
  case 0
  then show ?case by simp
next
  case (Suc m)
  have "take (m * F) xs @ take F (drop (m * F) xs) = take (m * F + F) xs"
    by (simp add: take_add)
  with Suc show ?case by (simp add: add.commute)
qed

text \<open>
  The bounds of fold \<open>i\<close> for \<open>K\<close> folds over \<open>n\<close> items with fold size \<open>F\<close>, as
  natural numbers, and the segment of the array between them.
\<close>

definition seg_start :: "nat \<Rightarrow> nat \<Rightarrow> nat" where
  "seg_start F i = i * F"

definition seg_end :: "nat \<Rightarrow> nat \<Rightarrow> nat \<Rightarrow> nat \<Rightarrow> nat" where
  "seg_end K F n i = (if i = K - 1 then n else i * F + F)"

definition segment :: "nat \<Rightarrow> nat \<Rightarrow> 'a list \<Rightarrow> nat \<Rightarrow> 'a list" where
  "segment K F xs i =
     take (seg_end K F (length xs) i - seg_start F i) (drop (seg_start F i) xs)"

lemma fold_bounds_nat:
  assumes "1 \<le> k" and "i < nat k"
  shows "fold_bounds k (int F) n i = (int (seg_start F i), int (seg_end (nat k) F n i))"
proof -
  have "(int i = k - 1) = (i = nat k - 1)" using assms by auto
  then show ?thesis by (simp add: fold_bounds_def seg_start_def seg_end_def Let_def)
qed

lemma seg_bounds:
  assumes "0 < K" and "i < K" and "(K - 1) * F \<le> n"
  shows "seg_start F i \<le> seg_end K F n i" and "seg_end K F n i \<le> n"
proof -
  have "i \<le> K - 1" using assms(2) by simp
  then have "i * F \<le> (K - 1) * F" by (rule mult_right_mono) simp
  from this assms(3) have a: "i * F \<le> n" by (rule order_trans)
  have b: "i * F + F \<le> n" if "i \<noteq> K - 1"
  proof -
    from that assms(2) have "Suc i \<le> K - 1" by simp
    then have "Suc i * F \<le> (K - 1) * F" by (rule mult_right_mono) simp
    from this assms(3) have "Suc i * F \<le> n" by (rule order_trans)
    then show ?thesis by (simp add: add.commute)
  qed
  show "seg_start F i \<le> seg_end K F n i" using a by (auto simp: seg_start_def seg_end_def)
  show "seg_end K F n i \<le> n" using b by (simp add: seg_end_def)
qed

lemma slice_segment:
  assumes "0 < K" and "i < K" and "(K - 1) * F \<le> length xs"
  shows "slice xs (int (seg_start F i)) (int (seg_end K F (length xs) i)) = segment K F xs i"
    and "slice xs 0 (int (seg_start F i)) @ slice_from xs (int (seg_end K F (length xs) i))
      = take (seg_start F i) xs @ drop (seg_end K F (length xs) i) xs"
proof -
  note b = seg_bounds [OF assms]
  show "slice xs (int (seg_start F i)) (int (seg_end K F (length xs) i)) = segment K F xs i"
    using b by (simp add: slice_nat segment_def min_def)
  have "slice xs 0 (int (seg_start F i)) = take (seg_start F i) xs"
    using slice_nat [of xs 0 "seg_start F i"] b by (simp add: min_def)
  then show "slice xs 0 (int (seg_start F i)) @ slice_from xs (int (seg_end K F (length xs) i))
      = take (seg_start F i) xs @ drop (seg_end K F (length xs) i) xs"
    by (simp add: slice_from_nat)
qed

lemma segment_length:
  assumes "0 < K" and "i < K" and "(K - 1) * F \<le> length xs"
  shows "length (segment K F xs i)
    = (if i = K - 1 then length xs - (K - 1) * F else F)"
  using seg_bounds [OF assms] by (auto simp: segment_def seg_start_def seg_end_def)

lemma segments_tile:
  assumes "0 < K" and "(K - 1) * F \<le> length xs"
  shows "concat (map (segment K F xs) [0..<K]) = xs"
proof -
  obtain m where K: "K = Suc m" using assms(1) by (cases K) auto
  have "map (segment K F xs) [0..<m] = map (\<lambda>i. take F (drop (i * F) xs)) [0..<m]"
    by (intro map_cong) (auto simp: segment_def seg_start_def seg_end_def K)
  then have a: "concat (map (segment K F xs) [0..<m]) = take (m * F) xs"
    by (simp only: tile_prefix)
  have b: "segment K F xs m = drop (m * F) xs"
    using assms(2) by (simp add: segment_def seg_start_def seg_end_def K)
  have "concat (map (segment K F xs) [0..<K])
      = concat (map (segment K F xs) [0..<m]) @ segment K F xs m"
    by (simp add: K)
  then show ?thesis by (simp only: a b append_take_drop_id)
qed

lemma segment_complement:
  assumes "0 < K" and "i < K" and "(K - 1) * F \<le> length xs"
  shows "mset (take (seg_start F i) xs @ drop (seg_end K F (length xs) i) xs)
    + mset (segment K F xs i) = mset xs"
proof -
  note b = seg_bounds [OF assms]
  have "xs = take (seg_start F i) xs @ segment K F xs i @ drop (seg_end K F (length xs) i) xs"
  proof -
    have "drop (seg_start F i) xs
        = segment K F xs i @ drop (seg_end K F (length xs) i - seg_start F i) (drop (seg_start F i) xs)"
      unfolding segment_def by (rule append_take_drop_id [symmetric])
    also have "drop (seg_end K F (length xs) i - seg_start F i) (drop (seg_start F i) xs)
        = drop (seg_end K F (length xs) i) xs"
      using b(1) by simp
    finally show ?thesis by (metis append_take_drop_id)
  qed
  then have "mset xs = mset (take (seg_start F i) xs @ segment K F xs i
      @ drop (seg_end K F (length xs) i) xs)" by simp
  then show ?thesis by (simp add: ac_simps)
qed

subsection \<open>The folds of \<open>kFoldSplit\<close>\<close>

lemma distinct_concat_nth:
  assumes "distinct (concat xss)" and "i < j" and "j < length xss"
  shows "set (xss ! i) \<inter> set (xss ! j) = {}"
proof -
  have "xss = take j xss @ xss ! j # drop (Suc j) xss"
    using assms(3) by (rule id_take_nth_drop)
  then have "concat xss = concat (take j xss) @ xss ! j @ concat (drop (Suc j) xss)"
    by (metis concat.simps(2) concat_append)
  with assms(1) have d: "set (concat (take j xss)) \<inter> set (xss ! j) = {}" by auto
  have "xss ! i \<in> set (take j xss)"
    using assms(2,3) by (metis length_take min.absorb4 nth_mem nth_take order_less_trans)
  then have "set (xss ! i) \<subseteq> set (concat (take j xss))" by auto
  with d show ?thesis by blast
qed

lemma distinct_concat_disjoint:
  assumes "distinct (concat xss)" and "i \<noteq> j" and "i < length xss" and "j < length xss"
  shows "set (xss ! i) \<inter> set (xss ! j) = {}"
proof (cases "i < j")
  case True
  then show ?thesis using assms by (intro distinct_concat_nth)
next
  case False
  with assms(2) have "j < i" by simp
  from distinct_concat_nth [OF assms(1) this assms(3)] show ?thesis by blast
qed

lemma simple_fold_nat:
  assumes "1 \<le> k" and "i < nat k" and "(nat k - 1) * F \<le> length dc"
  shows "simple_fold dc k (int F) (length dc) i
    = \<lparr>train = take (seg_start F i) dc @ drop (seg_end (nat k) F (length dc) i) dc,
       test = segment (nat k) F dc i, fold = i + 1,
       train_size = length (take (seg_start F i) dc @ drop (seg_end (nat k) F (length dc) i) dc),
       test_size = length (segment (nat k) F dc i)\<rparr>"
proof -
  have K: "0 < nat k" using assms(1) by simp
  note s = slice_segment [OF K assms(2,3)]
  show ?thesis
    by (simp only: simple_fold_def fold_bounds_nat [OF assms(1,2)] Let_def fst_conv snd_conv s)
qed

lemma fold_size_nat:
  assumes "1 \<le> k" and "k < 2 ^ 32" and "n < 2 ^ 32"
  shows "Math_floor (js_div (of_nat n) (of_int k)) = int (n div nat k)"
    and "(nat k - 1) * (n div nat k) \<le> n"
proof -
  have "int (n div nat k) = int n div k" using assms(1) by (simp add: zdiv_int)
  with floor_js_div [OF assms(3,1,2)]
  show "Math_floor (js_div (of_nat n) (of_int k)) = int (n div nat k)" by simp
  have "(nat k - 1) * (n div nat k) \<le> nat k * (n div nat k)"
    by (intro mult_right_mono) simp_all
  also have "\<dots> \<le> n" by simp
  finally show "(nat k - 1) * (n div nat k) \<le> n" .
qed

text \<open>
  Claim C2. For a dataset of \<open>N\<close> records (an array has fewer than \<open>2 ^ 32\<close> elements) and
  \<open>2 \<le> k \<le> N\<close>, non-stratified \<open>kFoldSplit\<close>, shuffling or not, returns \<open>k\<close> folds. The
  test sets taken together are the records of the dataset, each as often as the dataset
  has it, so for distinct records the test sets are pairwise disjoint and every record is
  in exactly one. A fold before the last has \<open>N div k\<close> test records, the last has
  \<open>N - (k - 1) * (N div k)\<close>; \<open>test_size\<close> reports it; and train and test of one fold
  together are the dataset.
\<close>

theorem kFoldSplit_partition:
  assumes k: "2 \<le> k" "k \<le> int (length data)"
    and len: "length data < 2 ^ 32"
    and ns: "stratify = None \<or> stratify = Some []"
  shows "\<exists>r this'. kFoldSplit this data k shuffle stratify = (Inr r, this')
    \<and> length (folds r) = nat k
    \<and> mset (concat (map test (folds r))) = mset (map Some data)
    \<and> (\<forall>i<nat k.
          length (test (folds r ! i))
            = (if i = nat k - 1 then length data - (nat k - 1) * (length data div nat k)
               else length data div nat k)
          \<and> test_size (folds r ! i) = length (test (folds r ! i))
          \<and> mset (train (folds r ! i)) + mset (test (folds r ! i)) = mset (map Some data))
    \<and> (distinct data \<longrightarrow>
          (\<forall>i<nat k. \<forall>j<nat k. i \<noteq> j \<longrightarrow>
             set (test (folds r ! i)) \<inter> set (test (folds r ! j)) = {}))"
proof -
  define K where "K = nat k"
  define F where "F = length data div K"
  define sh where "sh = (if shuffle then shuffleArray this (map Some data) else (map Some data, this))"
  define dc where "dc = fst sh"
  have lm: "length (map Some data) < 2 ^ 32" using len by simp
  have dc: "mset dc = mset (map Some data)" and ldc: "length dc = length data"
    using shuffleArray_mset [OF lm, of this] by (simp_all add: dc_def sh_def)
  have k1: "1 \<le> k" and k32: "k < 2 ^ 32" and K0: "0 < K" using k len by (simp_all add: K_def)
  note fs = fold_size_nat [OF k1 k32 len]
  have F: "Math_floor (js_div (of_nat (length data)) (of_int k)) = int F"
    and KF: "(K - 1) * F \<le> length dc"
    using fs by (simp_all add: F_def K_def ldc)
  define fs where "fs = map (simple_fold dc k (int F) (length data)) [0..<K]"
  define r where "r = \<lparr>folds = fs,
      fold_info = \<lparr>k_info = k, stratified = False, stratify_field = None,
                    total_samples_info = length data, categories = None,
                    avg_train_size = avg_size (map train_size fs) k,
                    avg_test_size = avg_size (map test_size fs) k\<rparr>\<rparr>"
  have res: "kFoldSplit this data k shuffle stratify = (Inr r, snd sh)"
    using k ns
    by (auto simp: kFoldSplit_def Let_def case_prod_beta F r_def fs_def dc_def sh_def K_def)
  have nth: "fs ! i = \<lparr>train = take (seg_start F i) dc @ drop (seg_end K F (length dc) i) dc,
       test = segment K F dc i, fold = i + 1,
       train_size = length (take (seg_start F i) dc @ drop (seg_end K F (length dc) i) dc),
       test_size = length (segment K F dc i)\<rparr>" if "i < K" for i
    using that simple_fold_nat [OF k1 _ KF [unfolded K_def], of i]
    by (simp add: fs_def K_def ldc)
  have lfs: "length fs = K" by (simp add: fs_def)
  have tests: "map test fs = map (segment K F dc) [0..<K]"
  proof (rule nth_equalityI)
    show "length (map test fs) = length (map (segment K F dc) [0..<K])" by (simp add: lfs)
    fix i assume "i < length (map test fs)"
    then have i: "i < K" by (simp add: lfs)
    then show "map test fs ! i = map (segment K F dc) [0..<K] ! i"
      by (simp add: lfs nth [OF i])
  qed
  have cc: "concat (map test fs) = dc"
    unfolding tests by (rule segments_tile [OF K0 KF])
  have a: "length (folds r) = nat k" by (simp add: r_def fs_def K_def)
  have b: "mset (concat (map test (folds r))) = mset (map Some data)"
    by (simp add: r_def cc dc)
  have c: "length (test (folds r ! i))
            = (if i = nat k - 1 then length data - (nat k - 1) * (length data div nat k)
               else length data div nat k)
          \<and> test_size (folds r ! i) = length (test (folds r ! i))
          \<and> mset (train (folds r ! i)) + mset (test (folds r ! i)) = mset (map Some data)"
    if "i < nat k" for i
  proof -
    from that have i: "i < K" by (simp add: K_def)
    show ?thesis
      using segment_length [OF K0 i KF] segment_complement [OF K0 i KF]
      by (simp add: r_def nth [OF i] ldc dc F_def K_def)
  qed
  have d: "set (test (folds r ! i)) \<inter> set (test (folds r ! j)) = {}"
    if "distinct data" and "i < nat k" and "j < nat k" and "i \<noteq> j" for i j
  proof -
    from that(1) have "distinct (map Some data)" by (simp add: distinct_map)
    with dc have "distinct dc" by (metis distinct_count_atmost_1 set_mset_mset)
    then have "distinct (concat (map test fs))" by (simp only: cc)
    from distinct_concat_disjoint [OF this that(4)] that(2,3)
    show ?thesis by (simp add: r_def fs_def K_def)
  qed
  from res a b c d show ?thesis by blast
qed

theorem kFoldSplit_partition_witness:
  "\<exists>r this'. kFoldSplit (new_DataSplitter None)
       [\<lparr>id_row = ''1'', embedding = [], metadata = [(''articletype'', ''Shirts'')]\<rparr>,
        \<lparr>id_row = ''2'', embedding = [], metadata = [(''articletype'', ''Shirts'')]\<rparr>,
        \<lparr>id_row = ''3'', embedding = [], metadata = [(''articletype'', ''Shirts'')]\<rparr>,
        \<lparr>id_row = ''4'', embedding = [], metadata = [(''articletype'', ''Shirts'')]\<rparr>,
        \<lparr>id_row = ''5'', embedding = [], metadata = [(''articletype'', ''Shirts'')]\<rparr>]
       2 True None = (Inr r, this')
     \<and> length (folds r) = 2
     \<and> mset (concat (map test (folds r))) = mset (map Some
       [\<lparr>id_row = ''1'', embedding = [], metadata = [(''articletype'', ''Shirts'')]\<rparr>,
        \<lparr>id_row = ''2'', embedding = [], metadata = [(''articletype'', ''Shirts'')]\<rparr>,
        \<lparr>id_row = ''3'', embedding = [], metadata = [(''articletype'', ''Shirts'')]\<rparr>,
        \<lparr>id_row = ''4'', embedding = [], metadata = [(''articletype'', ''Shirts'')]\<rparr>,
        \<lparr>id_row = ''5'', embedding = [], metadata = [(''articletype'', ''Shirts'')]\<rparr>])
     \<and> length (test (folds r ! 0)) = 2
     \<and> length (test (folds r ! 1)) = 3"
proof -
  let ?data = "[\<lparr>id_row = ''1'', embedding = [], metadata = [(''articletype'', ''Shirts'')]\<rparr>,
        \<lparr>id_row = ''2'', embedding = [], metadata = [(''articletype'', ''Shirts'')]\<rparr>,
        \<lparr>id_row = ''3'', embedding = [], metadata = [(''articletype'', ''Shirts'')]\<rparr>,
        \<lparr>id_row = ''4'', embedding = [], metadata = [(''articletype'', ''Shirts'')]\<rparr>,
        \<lparr>id_row = ''5'', embedding = [], metadata = [(''articletype'', ''Shirts'')]\<rparr>]"
  have h: "2 \<le> (2::int)" "2 \<le> int (length ?data)" "length ?data < 2 ^ 32"
    "(None :: string option) = None \<or> (None :: string option) = Some []"
    by simp_all
  from kFoldSplit_partition [OF h, of "new_DataSplitter None" True]
  obtain r this' where r: "kFoldSplit (new_DataSplitter None) ?data 2 True None = (Inr r, this')"
    and l: "length (folds r) = nat 2"
    and m: "mset (concat (map test (folds r))) = mset (map Some ?data)"
    and s: "\<And>i. i < nat 2 \<Longrightarrow> length (test (folds r ! i))
            = (if i = nat 2 - 1 then length ?data - (nat 2 - 1) * (length ?data div nat 2)
               else length ?data div nat 2)"
    by blast
  from s [of 0] s [of 1] have "length (test (folds r ! 0)) = 2" "length (test (folds r ! 1)) = 3"
    by simp_all
  with r l m show ?thesis by (intro exI [of _ r] exI [of _ this']) simp
qed

subsection \<open>The groups of a stratified operation\<close>

text \<open>
  \<open>in_category field c item\<close>: the item's value of the field is the category \<open>c\<close>
  (\<open>None\<close> is the category of the rows without the field). \<open>grouped\<close> is what the
  grouping loop keeps true of the \<open>Map\<close>: no category twice, every item under its own.
\<close>

definition in_category :: "string \<Rightarrow> js_value option \<Rightarrow> row option \<Rightarrow> bool" where
  "in_category field c item = (extractFieldValue item field = Inr c)"

definition grouped :: "string \<Rightarrow> (js_value option \<times> row option list) list \<Rightarrow> bool" where
  "grouped field groups =
     (distinct (map fst groups)
      \<and> list_all (\<lambda>(c, items). list_all (in_category field c) items) groups)"

definition seg_len :: "nat \<Rightarrow> nat \<Rightarrow> nat \<Rightarrow> nat" where
  "seg_len K n i = (if i = K - 1 then n - (K - 1) * (n div K) else n div K)"

lemma group_push_keys:
  "map fst (group_push groups c x)
   = (if c \<in> set (map fst groups) then map fst groups else map fst groups @ [c])"
  by (induction groups c x rule: group_push.induct) auto

lemma group_push_mset:
  "mset (concat (map snd (group_push groups c x))) = mset (concat (map snd groups)) + {#x#}"
  by (induction groups c x rule: group_push.induct) auto

lemma group_push_items:
  "list_all (\<lambda>(c, items). list_all (in_category field c) items) groups \<Longrightarrow>
   in_category field c x \<Longrightarrow>
   list_all (\<lambda>(c, items). list_all (in_category field c) items) (group_push groups c x)"
  by (induction groups c x rule: group_push.induct) auto

lemma group_push_grouped:
  "grouped field groups \<Longrightarrow> in_category field c x \<Longrightarrow> grouped field (group_push groups c x)"
  by (auto simp: grouped_def group_push_keys group_push_items)

lemma group_by_rows:
  assumes "grouped field groups"
  shows "\<exists>groups'. group_by (map Some data) field groups = Inr groups'
    \<and> grouped field groups'
    \<and> mset (concat (map snd groups')) = mset (concat (map snd groups)) + mset (map Some data)"
  using assms
proof (induction data arbitrary: groups)
  case Nil
  then show ?case by simp
next
  case (Cons r data)
  have c: "in_category field (property_get (metadata r) field) (Some r)"
    by (simp add: in_category_def extractFieldValue_def)
  from Cons.IH [OF group_push_grouped [OF Cons.prems c]]
  show ?case by (auto simp: extractFieldValue_def group_push_mset)
qed

lemma in_category_unique:
  "in_category field c x \<Longrightarrow> in_category field c' x \<Longrightarrow> c = c'"
  by (simp add: in_category_def)

lemma filter_category:
  assumes "list_all (in_category field c') items"
  shows "filter (in_category field c) items = (if c = c' then items else [])"
  using assms by (induction items) (auto dest: in_category_unique)

lemma grouped_count:
  assumes "grouped field groups"
  shows "length (filter (in_category field c) (concat (map snd groups)))
    = (case map_of groups c of None \<Rightarrow> 0 | Some items \<Rightarrow> length items)"
  using assms
proof (induction groups)
  case Nil
  then show ?case by simp
next
  case (Cons g groups)
  obtain c' items where g: "g = (c', items)" by (cases g)
  from Cons.prems have rest: "grouped field groups" and it: "list_all (in_category field c') items"
    and new: "c' \<notin> set (map fst groups)"
    by (auto simp: grouped_def g)
  show ?case
  proof (cases "c = c'")
    case True
    with new have "map_of groups c = None" by (simp add: map_of_eq_None_iff)
    with Cons.IH [OF rest] True show ?thesis by (simp add: g filter_category [OF it])
  next
    case False
    with Cons.IH [OF rest] show ?thesis by (simp add: g filter_category [OF it])
  qed
qed

subsection \<open>The folds of \<open>stratifiedKFoldSplit\<close>\<close>

lemma push_category_nat:
  assumes "1 \<le> k" and "i < nat k" and "(nat k - 1) * F \<le> length sh"
  shows "test (push_category sh k (int F) (length sh) i f) = test f @ segment (nat k) F sh i"
proof -
  have K: "0 < nat k" using assms(1) by simp
  note s = slice_segment [OF K assms(2,3)]
  show ?thesis
    by (simp add: push_category_def fold_bounds_nat [OF assms(1,2)] s(1))
qed

lemma mset_concat_append:
  "mset (concat (map (\<lambda>i. f i @ g i) xs)) = mset (concat (map f xs)) + mset (concat (map g xs))"
  by (induction xs) simp_all

lemma segment_subset: "set (segment K F xs i) \<subseteq> set xs"
  unfolding segment_def by (meson set_drop_subset set_take_subset subset_trans)

lemma stratified_kfold_loop_tests:
  assumes k: "1 \<le> k" "k < 2 ^ 32"
    and "grouped field groups"
    and "length (concat (map snd groups)) < 2 ^ 32"
    and "length fs = nat k"
  shows "length (fst (stratified_kfold_loop groups k fs this)) = nat k
    \<and> mset (concat (map test (fst (stratified_kfold_loop groups k fs this))))
        = mset (concat (map test fs)) + mset (concat (map snd groups))
    \<and> (\<forall>i<nat k. \<forall>c.
          length (filter (in_category field c) (test (fst (stratified_kfold_loop groups k fs this) ! i)))
          = length (filter (in_category field c) (test (fs ! i)))
            + (case map_of groups c of None \<Rightarrow> 0 | Some items \<Rightarrow> seg_len (nat k) (length items) i))"
  using assms(3-)
proof (induction groups arbitrary: fs this)
  case Nil
  then show ?case by simp
next
  case (Cons g groups)
  obtain c' items where g: "g = (c', items)" by (cases g)
  define K where "K = nat k"
  have K0: "0 < K" using k(1) by (simp add: K_def)
  from Cons.prems(1) have rest: "grouped field groups" and it: "list_all (in_category field c') items"
    and new: "c' \<notin> set (map fst groups)"
    by (auto simp: grouped_def g)
  from Cons.prems(2) have li: "length items < 2 ^ 32"
    and lr: "length (concat (map snd groups)) < 2 ^ 32" by (simp_all add: g)
  define sh where "sh = fst (shuffleArray this items)"
  define F where "F = length items div K"
  have msh: "mset sh = mset items" and lsh: "length sh = length items"
    using shuffleArray_mset [OF li, of this] by (simp_all add: sh_def)
  note fsn = fold_size_nat [OF k li]
  have KF: "(nat k - 1) * F \<le> length sh" using fsn(2) by (simp add: F_def K_def lsh)
  define fs' where "fs' = map (\<lambda>i. push_category sh k (int F) (length items) i (fs ! i)) [0..<K]"
  have step: "stratified_kfold_loop (g # groups) k fs this
      = stratified_kfold_loop groups k fs' (snd (shuffleArray this items))"
    by (simp add: g case_prod_beta Let_def fsn(1) fs'_def sh_def F_def K_def)
  have lfs': "length fs' = nat k" by (simp add: fs'_def K_def)
  have t: "test (fs' ! i) = test (fs ! i) @ segment K F sh i" if "i < K" for i
    using that push_category_nat [OF k(1) _ KF, of i "fs ! i"]
    by (simp add: fs'_def K_def lsh)
  have tests: "map test fs' = map (\<lambda>i. test (fs ! i) @ segment K F sh i) [0..<K]"
  proof (rule nth_equalityI)
    show "length (map test fs') = length (map (\<lambda>i. test (fs ! i) @ segment K F sh i) [0..<K])"
      by (simp add: lfs' K_def)
    fix i assume "i < length (map test fs')"
    then have i: "i < K" by (simp add: lfs' K_def)
    then show "map test fs' ! i = map (\<lambda>i. test (fs ! i) @ segment K F sh i) [0..<K] ! i"
      by (simp add: lfs' K_def [symmetric] t [OF i])
  qed
  have old: "map (\<lambda>i. test (fs ! i)) [0..<K] = map test fs"
    using Cons.prems(3) by (intro nth_equalityI) (simp_all add: K_def)
  have m1: "mset (concat (map test fs')) = mset (concat (map test fs)) + mset items"
    unfolding tests mset_concat_append old
    using segments_tile [OF K0 KF [folded K_def]] msh by simp
  have shc: "list_all (in_category field c') sh"
    using it msh by (metis list_all_iff mset_eq_setD)
  have c1: "length (filter (in_category field c) (test (fs' ! i)))
      = length (filter (in_category field c) (test (fs ! i)))
        + (if c = c' then seg_len K (length items) i else 0)" if "i < K" for i c
  proof -
    have "list_all (in_category field c') (segment K F sh i)"
      using shc segment_subset [of K F sh i] by (auto simp: list_all_iff)
    from filter_category [OF this, of c]
    have "length (filter (in_category field c) (segment K F sh i))
        = (if c = c' then length (segment K F sh i) else 0)" by simp
    moreover have "length (segment K F sh i) = seg_len K (length items) i"
      using segment_length [OF K0 that KF [folded K_def]]
      by (simp add: seg_len_def lsh F_def)
    ultimately show ?thesis by (simp add: t [OF that])
  qed
  note IH = Cons.IH [OF rest lr lfs', of "snd (shuffleArray this items)"]
  have a: "length (fst (stratified_kfold_loop (g # groups) k fs this)) = nat k"
    using IH by (simp only: step)
  have b: "mset (concat (map test (fst (stratified_kfold_loop (g # groups) k fs this))))
        = mset (concat (map test fs)) + mset (concat (map snd (g # groups)))"
    using IH by (simp only: step m1) (simp add: g)
  have c: "length (filter (in_category field c)
              (test (fst (stratified_kfold_loop (g # groups) k fs this) ! i)))
          = length (filter (in_category field c) (test (fs ! i)))
            + (case map_of (g # groups) c of None \<Rightarrow> 0
               | Some items \<Rightarrow> seg_len (nat k) (length items) i)" if "i < nat k" for i c
  proof -
    from that have i: "i < K" by (simp add: K_def)
    from IH that have "length (filter (in_category field c)
              (test (fst (stratified_kfold_loop (g # groups) k fs this) ! i)))
          = length (filter (in_category field c) (test (fs' ! i)))
            + (case map_of groups c of None \<Rightarrow> 0
               | Some items \<Rightarrow> seg_len (nat k) (length items) i)"
      by (simp only: step)
    moreover have "map_of groups c' = None" using new by (simp add: map_of_eq_None_iff)
    ultimately show ?thesis by (simp add: c1 [OF i] g K_def)
  qed
  from a b c show ?case by blast
qed

text \<open>
  \<open>category_counts field c fs\<close>: for each fold of \<open>fs\<close>, the number of records of the
  category \<open>c\<close> in its test set.
\<close>

definition category_counts :: "string \<Rightarrow> js_value option \<Rightarrow> fold list \<Rightarrow> nat list" where
  "category_counts field c fs = map (\<lambda>f. length (filter (in_category field c) (test f))) fs"

lemma length_filter_mset_cong:
  assumes "mset xs = mset ys"
  shows "length (filter P xs) = length (filter P ys)"
proof -
  have "size (filter_mset P (mset xs)) = size (filter_mset P (mset ys))" by (simp only: assms)
  then show ?thesis by (simp only: mset_filter [symmetric] size_mset)
qed

lemma seg_len_zero: "seg_len K 0 i = 0"
  by (simp add: seg_len_def)

text \<open>
  Claim C1, as the code has it. For \<open>2 \<le> k \<le> |D|\<close>, stratified \<open>kFoldSplit\<close> returns \<open>k\<close>
  folds whose test sets taken together are the records of the dataset, each as often as
  the dataset has it; for distinct records the test sets are pairwise disjoint, so every
  record of any category is in exactly one. Of the \<open>n\<close> records of a category, each fold
  before the last gets \<open>n div k\<close> and the last gets the rest, \<open>n - (k - 1) * (n div k)\<close>
  (\<open>seg_len\<close>): the counts of two folds before the last are equal, and the last exceeds
  them by \<open>n mod k\<close>, which can be as much as \<open>k - 1\<close>.
\<close>

theorem kFoldSplit_stratified:
  assumes k: "2 \<le> k" "k \<le> int (length data)"
    and len: "length data < 2 ^ 32"
    and field: "field \<noteq> []"
  shows "\<exists>r this'. kFoldSplit this data k shuffle (Some field) = (Inr r, this')
    \<and> length (folds r) = nat k
    \<and> mset (concat (map test (folds r))) = mset (map Some data)
    \<and> (\<forall>i<nat k. \<forall>c.
          length (filter (in_category field c) (test (folds r ! i)))
          = seg_len (nat k) (length (filter (in_category field c) (map Some data))) i)
    \<and> (distinct data \<longrightarrow>
          (\<forall>i<nat k. \<forall>j<nat k. i \<noteq> j \<longrightarrow>
             set (test (folds r ! i)) \<inter> set (test (folds r ! j)) = {}))"
proof -
  define K where "K = nat k"
  define sh where "sh = (if shuffle then shuffleArray this (map Some data) else (map Some data, this))"
  define dc where "dc = fst sh"
  have lm: "length (map Some data) < 2 ^ 32" using len by simp
  have dc: "mset dc = mset (map Some data)" and ldc: "length dc = length data"
    using shuffleArray_mset [OF lm, of this] by (simp_all add: dc_def sh_def)
  have k1: "1 \<le> k" and k32: "k < 2 ^ 32" using k len by simp_all
  have "set dc = Some ` set data" using dc by (metis mset_eq_setD set_map)
  then have "\<And>x. x \<in> set dc \<Longrightarrow> Some (the x) = x" by auto
  then have "map Some (map the dc) = dc" by (simp add: map_idI)
  then obtain data' where data': "dc = map Some data'" by metis
  have g0: "grouped field []" by (simp add: grouped_def)
  from group_by_rows [OF g0, of data'] obtain groups where
    gb: "group_by dc field [] = Inr groups" and gr: "grouped field groups"
    and gm: "mset (concat (map snd groups)) = mset dc"
    by (auto simp: data')
  have gl: "length (concat (map snd groups)) < 2 ^ 32"
    using gm len ldc by (metis size_mset)
  define empty where
    "empty = map (\<lambda>i. \<lparr>train = [], test = [], fold = i + 1, train_size = 0, test_size = 0\<rparr>)
               [0..<nat k]"
  have le: "length empty = nat k" by (simp add: empty_def)
  have te: "concat (map test empty) = []" and tei: "\<And>i. i < nat k \<Longrightarrow> test (empty ! i) = []"
    by (simp_all add: empty_def)
  define lp where "lp = stratified_kfold_loop groups k empty (snd sh)"
  define fs where
    "fs = map (\<lambda>f. f\<lparr>train_size := length (train f), test_size := length (test f)\<rparr>) (fst lp)"
  define r where "r = \<lparr>folds = fs,
      fold_info = \<lparr>k_info = k, stratified = True, stratify_field = Some field,
                    total_samples_info = length dc, categories = Some (length groups),
                    avg_train_size = avg_size (map train_size fs) k,
                    avg_test_size = avg_size (map test_size fs) k\<rparr>\<rparr>"
  obtain c cs where fcs: "field = c # cs" using field by (cases field) auto
  have kr: "\<not> (k < 0 \<or> k > 4294967295)" using k1 k32 by simp
  have s1: "stratifiedKFoldSplit (snd sh) dc k field = (Inr r, snd lp)"
    using kr by (simp add: stratifiedKFoldSplit_def gb Let_def case_prod_beta r_def fs_def lp_def empty_def)
  have s2: "kFoldSplit this data k shuffle (Some field) = stratifiedKFoldSplit (snd sh) dc k field"
    using k by (simp add: kFoldSplit_def Let_def case_prod_beta fcs sh_def dc_def)
  have res: "kFoldSplit this data k shuffle (Some field) = (Inr r, snd lp)"
    by (simp only: s1 s2)
  from stratified_kfold_loop_tests [OF k1 k32 gr gl le, of "snd sh"]
  have l1: "length (fst lp) = nat k"
    and l2: "mset (concat (map test (fst lp))) = mset (concat (map snd groups))"
    and l3: "\<And>i c. i < nat k \<Longrightarrow>
          length (filter (in_category field c) (test (fst lp ! i)))
          = (case map_of groups c of None \<Rightarrow> 0 | Some items \<Rightarrow> seg_len (nat k) (length items) i)"
    by (simp_all add: lp_def te tei)
  have tfs: "map test fs = map test (fst lp)" by (simp add: fs_def comp_def)
  have nfs: "\<And>i. i < nat k \<Longrightarrow> test (fs ! i) = test (fst lp ! i)"
    using l1 by (simp add: fs_def)
  have a: "length (folds r) = nat k" by (simp add: r_def fs_def l1)
  have b: "mset (concat (map test (folds r))) = mset (map Some data)"
    by (simp add: r_def tfs l2 gm dc)
  have c: "length (filter (in_category field c) (test (folds r ! i)))
          = seg_len (nat k) (length (filter (in_category field c) (map Some data))) i"
    if "i < nat k" for i c
  proof -
    have "length (filter (in_category field c) (map Some data))
        = length (filter (in_category field c) (concat (map snd groups)))"
      using gm dc by (intro length_filter_mset_cong) simp
    also have "\<dots> = (case map_of groups c of None \<Rightarrow> 0 | Some items \<Rightarrow> length items)"
      by (rule grouped_count [OF gr])
    finally show ?thesis
      using l3 [OF that, of c] by (simp add: r_def nfs [OF that] seg_len_zero split: option.splits)
  qed
  have d: "set (test (folds r ! i)) \<inter> set (test (folds r ! j)) = {}"
    if "distinct data" and "i < nat k" and "j < nat k" and "i \<noteq> j" for i j
  proof -
    from that(1) have "distinct (map Some data)" by (simp add: distinct_map)
    with b have "distinct (concat (map test (folds r)))"
      by (metis distinct_count_atmost_1 set_mset_mset)
    from distinct_concat_disjoint [OF this that(4)] that(2,3) a
    show ?thesis by simp
  qed
  from res a b c d show ?thesis by blast
qed

theorem kFoldSplit_stratified_witness:
  "\<exists>r this'. kFoldSplit (new_DataSplitter None)
       [\<lparr>id_row = ''1'', embedding = [], metadata = [(''articletype'', ''Shirts'')]\<rparr>,
        \<lparr>id_row = ''2'', embedding = [], metadata = [(''articletype'', ''Shirts'')]\<rparr>,
        \<lparr>id_row = ''3'', embedding = [], metadata = [(''articletype'', ''Shirts'')]\<rparr>,
        \<lparr>id_row = ''4'', embedding = [], metadata = [(''articletype'', ''Shirts'')]\<rparr>,
        \<lparr>id_row = ''5'', embedding = [], metadata = [(''articletype'', ''Shirts'')]\<rparr>]
       3 True (Some ''articletype'') = (Inr r, this')
     \<and> length (folds r) = 3
     \<and> mset (concat (map test (folds r))) = mset (map Some
       [\<lparr>id_row = ''1'', embedding = [], metadata = [(''articletype'', ''Shirts'')]\<rparr>,
        \<lparr>id_row = ''2'', embedding = [], metadata = [(''articletype'', ''Shirts'')]\<rparr>,
        \<lparr>id_row = ''3'', embedding = [], metadata = [(''articletype'', ''Shirts'')]\<rparr>,
        \<lparr>id_row = ''4'', embedding = [], metadata = [(''articletype'', ''Shirts'')]\<rparr>,
        \<lparr>id_row = ''5'', embedding = [], metadata = [(''articletype'', ''Shirts'')]\<rparr>])
     \<and> length (filter (in_category ''articletype'' (Some (Str ''Shirts''))) (test (folds r ! 0))) = 1
     \<and> length (filter (in_category ''articletype'' (Some (Str ''Shirts''))) (test (folds r ! 2))) = 3"
proof -
  let ?data = "[\<lparr>id_row = ''1'', embedding = [], metadata = [(''articletype'', ''Shirts'')]\<rparr>,
        \<lparr>id_row = ''2'', embedding = [], metadata = [(''articletype'', ''Shirts'')]\<rparr>,
        \<lparr>id_row = ''3'', embedding = [], metadata = [(''articletype'', ''Shirts'')]\<rparr>,
        \<lparr>id_row = ''4'', embedding = [], metadata = [(''articletype'', ''Shirts'')]\<rparr>,
        \<lparr>id_row = ''5'', embedding = [], metadata = [(''articletype'', ''Shirts'')]\<rparr>]"
  have h: "2 \<le> (3::int)" "3 \<le> int (length ?data)" "length ?data < 2 ^ 32"
    "''articletype'' \<noteq> []"
    by simp_all
  have n: "length (filter (in_category ''articletype'' (Some (Str ''Shirts''))) (map Some ?data)) = 5"
    by code_simp
  from kFoldSplit_stratified [OF h, of "new_DataSplitter None" True]
  obtain r this' where
    r: "kFoldSplit (new_DataSplitter None) ?data 3 True (Some ''articletype'') = (Inr r, this')"
    and l: "length (folds r) = nat 3"
    and m: "mset (concat (map test (folds r))) = mset (map Some ?data)"
    and s: "\<And>i c. i < nat 3 \<Longrightarrow>
          length (filter (in_category ''articletype'' c) (test (folds r ! i)))
          = seg_len (nat 3) (length (filter (in_category ''articletype'' c) (map Some ?data))) i"
    by blast
  from s [of 0 "Some (Str ''Shirts'')"] s [of 2 "Some (Str ''Shirts'')"]
  have "length (filter (in_category ''articletype'' (Some (Str ''Shirts''))) (test (folds r ! 0))) = 1"
    "length (filter (in_category ''articletype'' (Some (Str ''Shirts''))) (test (folds r ! 2))) = 3"
    by (simp_all only: n) (simp_all add: seg_len_def)
  with r l m show ?thesis by (intro exI [of _ r] exI [of _ this']) simp
qed

text \<open>
  The claim as stated bounds the difference between the counts of two folds by 1. Five
  records of one category in three folds are dealt 1, 1 and 3.
\<close>

theorem kFoldSplit_stratified_counterexample:
  "category_counts ''articletype'' (Some (Str ''Shirts''))
     (folds (projr (fst (kFoldSplit (new_DataSplitter None)
       [\<lparr>id_row = ''1'', embedding = [], metadata = [(''articletype'', ''Shirts'')]\<rparr>,
        \<lparr>id_row = ''2'', embedding = [], metadata = [(''articletype'', ''Shirts'')]\<rparr>,
        \<lparr>id_row = ''3'', embedding = [], metadata = [(''articletype'', ''Shirts'')]\<rparr>,
        \<lparr>id_row = ''4'', embedding = [], metadata = [(''articletype'', ''Shirts'')]\<rparr>,
        \<lparr>id_row = ''5'', embedding = [], metadata = [(''articletype'', ''Shirts'')]\<rparr>]
       3 True (Some ''articletype'')))))
   = [1, 1, 3]"
  by code_simp

section \<open>The check of the split ratio\<close>

text \<open>
  \<^verbatim>\<open>
  validateConfig(config = null) {
    config = config || this.getConfig();
    const errors = [];
    if (!config.k_values || !Array.isArray(config.k_values) || config.k_values.length === 0) {
      errors.push('k_values must be a non-empty array');
    }
    if (!config.target_fields || !Array.isArray(config.target_fields) || config.target_fields.length === 0) {
      errors.push('target_fields must be a non-empty array');
    }
    if (config.test_split_ratio <= 0 || config.test_split_ratio >= 1) {
      errors.push('test_split_ratio must be between 0 and 1');
    }
    if (config.min_category_samples < 1) {
      errors.push('min_category_samples must be at least 1');
    }
    for (const field of config.target_fields) {
      if (!FieldConfigs[field]) { console.warn(`Unknown field in target_fields: ${field}`); }
    }
    if (errors.length > 0) {
      throw new Error(`Configuration validation failed:\n${errors.join('\n')}`);
    }
    return true;
  }
  \<close>
  This method of the configuration manager is the one place where a split ratio is
  checked. A property that the configuration lacks is \<open>None\<close>: it compares false with every
  number, and iterating over a missing \<open>target_fields\<close> throws a \<open>TypeError\<close>.
\<close>

record eval_config =
  k_values :: "nat list option"
  target_fields :: "string list option"
  test_split_ratio :: "rat option"
  min_category_samples :: "rat option"

definition join_lines :: "string list \<Rightarrow> string" where
  "join_lines ls = (case ls of [] \<Rightarrow> [] | l # rest \<Rightarrow> foldl (\<lambda>s t. s @ [CHR 0x0A] @ t) l rest)"

definition validation_errors :: "eval_config \<Rightarrow> string list" where
  "validation_errors config =
     (if k_values config = None \<or> k_values config = Some []
      then [''k_values must be a non-empty array''] else [])
     @ (if target_fields config = None \<or> target_fields config = Some []
        then [''target_fields must be a non-empty array''] else [])
     @ (case test_split_ratio config of
          None \<Rightarrow> []
        | Some ratio \<Rightarrow>
            if ratio \<le> 0 \<or> ratio \<ge> 1 then [''test_split_ratio must be between 0 and 1''] else [])
     @ (case min_category_samples config of
          None \<Rightarrow> []
        | Some m \<Rightarrow> if m < 1 then [''min_category_samples must be at least 1''] else [])"

definition validateConfig :: "eval_config \<Rightarrow> js_error + bool" where
  "validateConfig config =
     (let errors = validation_errors config
      in if target_fields config = None then Inl TypeError
         else if errors \<noteq> []
         then Inl (Error (''Configuration validation failed:'' @ [CHR 0x0A] @ join_lines errors))
         else Inr True)"

subsection \<open>The split operations take any ratio\<close>

lemma slice_partition: "mset (slice_from a t) + mset (slice a 0 t) = mset a"
proof -
  have "slice a 0 t = take (slice_index (length a) t) a"
    by (simp add: slice_def slice_index_def)
  then have "slice a 0 t @ slice_from a t = a" by (simp add: slice_from_def)
  then have "mset (slice a 0 t @ slice_from a t) = mset a" by simp
  then show ?thesis by (simp add: ac_simps)
qed

lemma trainTestSplit_partition:
  assumes "length data < 2 ^ 32"
  shows "mset (train (fst (trainTestSplit this data testSize shuffle)))
      + mset (test (fst (trainTestSplit this data testSize shuffle))) = mset (map Some data)"
proof -
  have lm: "length (map Some data) < 2 ^ 32" using assms by simp
  show ?thesis
    using shuffleArray_mset(1) [OF lm, of this]
    by (simp add: trainTestSplit_def Let_def slice_partition)
qed

lemma trainTestSplit_all_test:
  assumes len: "length data < 2 ^ 32" and big: "1 \<le> testSize"
  shows "train (fst (trainTestSplit this data testSize shuffle)) = []"
proof -
  define n where "n = length data"
  have lm: "length (map Some data) < 2 ^ 32" using len by simp
  have "fl (of_int (int n)) = of_int (int n)" using len by (intro fl_of_int) (simp add: n_def)
  moreover have "(of_int (int n) :: rat) \<le> of_nat n * testSize"
    using big by (simp add: mult_le_cancel_left1)
  then have "fl (of_int (int n)) \<le> fl (of_nat n * testSize)" by (rule fl_mono)
  ultimately have "of_int (int n) \<le> fl (of_nat n * testSize)" by simp
  then have "int n \<le> Math_floor (js_mul (of_nat n) testSize)"
    by (simp add: Math_floor_def js_mul_def le_floor_iff)
  then have "slice_index m (Math_floor (js_mul (of_nat n) testSize)) = m" if "m = n" for m
    using that by (simp add: slice_index_def)
  then show ?thesis
    using shuffleArray_mset(2) [OF lm, of this]
    by (simp add: trainTestSplit_def Let_def slice_from_def n_def)
qed

lemma stratified_loop_partition:
  assumes "length (concat (map snd groups)) < 2 ^ 32"
  shows "mset (fst (fst (stratified_loop groups testSize m (tr, te) this)))
      + mset (snd (fst (stratified_loop groups testSize m (tr, te) this)))
    = mset tr + mset te + mset (concat (map snd groups))"
  using assms
proof (induction groups arbitrary: tr te this)
  case Nil
  then show ?case by simp
next
  case (Cons g groups)
  obtain c items where g: "g = (c, items)" by (cases g)
  from Cons.prems have li: "length items < 2 ^ 32"
    and lr: "length (concat (map snd groups)) < 2 ^ 32" by (simp_all add: g)
  note sh = shuffleArray_mset(1) [OF li, of this]
  have "mset (slice_from (fst (shuffleArray this items)) t)
      + mset (slice (fst (shuffleArray this items)) 0 t) = mset items" for t
    by (simp only: slice_partition sh)
  then show ?case
    using Cons.IH [OF lr] by (simp add: g Let_def ac_simps)
qed

lemma stratifiedSplit_partition:
  assumes "length data < 2 ^ 32"
  shows "\<exists>r this'. stratifiedSplit this data testSize field m = (Inr r, this')
    \<and> mset (train r) + mset (test r) = mset (map Some data)"
proof -
  have g0: "grouped field []" by (simp add: grouped_def)
  from group_by_rows [OF g0, of data] obtain groups where
    gb: "group_by (map Some data) field [] = Inr groups"
    and gm: "mset (concat (map snd groups)) = mset (map Some data)"
    by auto
  have gl: "length (concat (map snd groups)) < 2 ^ 32"
    using gm assms by (metis length_map size_mset)
  from stratified_loop_partition [OF gl, of testSize m "[]" "[]" this] gm
  show ?thesis by (simp add: stratifiedSplit_def gb Let_def)
qed

lemma join_lines_line:
  assumes "l \<in> set ls"
  shows "\<exists>pre post. join_lines ls = pre @ l @ post"
proof -
  have fo: "foldl (\<lambda>s t. s @ [CHR 0x0A] @ t) acc rest
      = acc @ concat (map (\<lambda>t. [CHR 0x0A] @ t) rest)" for acc :: string and rest
    by (induction rest arbitrary: acc) simp_all
  from assms obtain before after where ls: "ls = before @ l # after"
    by (meson split_list)
  show ?thesis
  proof (cases before)
    case Nil
    with ls have "join_lines ls = [] @ l @ concat (map (\<lambda>t. [CHR 0x0A] @ t) after)"
      using fo [of l after] by (simp add: join_lines_def)
    then show ?thesis by blast
  next
    case (Cons b bs)
    with ls have "join_lines ls
        = (b @ concat (map (\<lambda>t. [CHR 0x0A] @ t) bs) @ [CHR 0x0A]) @ l
          @ concat (map (\<lambda>t. [CHR 0x0A] @ t) after)"
      using fo [of b "bs @ l # after"] by (simp add: join_lines_def)
    then show ?thesis by blast
  qed
qed

lemma validateConfig_ratio:
  assumes "target_fields config \<noteq> None"
    and "test_split_ratio config = Some ratio" and "ratio \<le> 0 \<or> 1 \<le> ratio"
  shows "\<exists>pre post. validateConfig config
    = Inl (Error (''Configuration validation failed:'' @ [CHR 0x0A]
                  @ pre @ ''test_split_ratio must be between 0 and 1'' @ post))"
proof -
  have m: "''test_split_ratio must be between 0 and 1'' \<in> set (validation_errors config)"
    using assms(2,3) by (auto simp: validation_errors_def)
  then have ne: "validation_errors config \<noteq> []" by auto
  from join_lines_line [OF m] obtain pre post where
    "join_lines (validation_errors config)
      = pre @ ''test_split_ratio must be between 0 and 1'' @ post" by blast
  then have "validateConfig config
    = Inl (Error (''Configuration validation failed:'' @ [CHR 0x0A]
                  @ pre @ ''test_split_ratio must be between 0 and 1'' @ post))"
    using ne assms(1) by (simp add: validateConfig_def Let_def)
  then show ?thesis by blast
qed

lemma validateConfig_no_fields:
  "target_fields config = None \<Longrightarrow> validateConfig config = Inl TypeError"
  by (simp add: validateConfig_def Let_def)

lemma validateConfig_valid_ratio:
  assumes "validateConfig config = Inr True" and "0 < ratio" and "ratio < 1"
  shows "validateConfig (config\<lparr>test_split_ratio := Some ratio\<rparr>) = Inr True"
proof -
  from assms(1) have tf: "target_fields config \<noteq> None" and e: "validation_errors config = []"
    by (auto simp: validateConfig_def Let_def split: if_splits)
  from e have "validation_errors (config\<lparr>test_split_ratio := Some ratio\<rparr>) = []"
    using assms(2,3) by (auto simp: validation_errors_def split: option.splits if_splits)
  with tf show ?thesis by (simp add: validateConfig_def Let_def)
qed

text \<open>
  Claim C7, as the code has it. A split ratio outside the open interval from 0 to 1 is
  rejected by \<open>validateConfig\<close>: for a configuration that has its \<open>target_fields\<close>, it throws
  the error \<open>Configuration validation failed:\<close> whose message has the line
  \<open>test_split_ratio must be between 0 and 1\<close> (without \<open>target_fields\<close> it throws a
  \<open>TypeError\<close>, whatever the ratio), and a ratio inside the interval is accepted in a
  configuration that is valid otherwise. The split operations check nothing: for every
  ratio, \<open>trainTestSplit\<close> and \<open>stratifiedSplit\<close> return without an error, and train and test
  together are the dataset; with a ratio of 1 or more \<open>trainTestSplit\<close> puts every record
  into test.
\<close>

theorem split_ratio_unchecked:
  assumes "length data < 2 ^ 32"
  shows "mset (train (fst (trainTestSplit this data testSize shuffle)))
        + mset (test (fst (trainTestSplit this data testSize shuffle))) = mset (map Some data)
    \<and> (1 \<le> testSize \<longrightarrow> train (fst (trainTestSplit this data testSize shuffle)) = [])
    \<and> (\<exists>r this'. stratifiedSplit this data testSize field m = (Inr r, this')
          \<and> mset (train r) + mset (test r) = mset (map Some data))
    \<and> ((testSize \<le> 0 \<or> 1 \<le> testSize) \<and> target_fields config \<noteq> None \<longrightarrow>
          (\<exists>pre post. validateConfig (config\<lparr>test_split_ratio := Some testSize\<rparr>)
             = Inl (Error (''Configuration validation failed:'' @ [CHR 0x0A]
                           @ pre @ ''test_split_ratio must be between 0 and 1'' @ post))))
    \<and> (target_fields config = None \<longrightarrow>
          validateConfig (config\<lparr>test_split_ratio := Some testSize\<rparr>) = Inl TypeError)
    \<and> (0 < testSize \<and> testSize < 1 \<and> validateConfig config = Inr True \<longrightarrow>
          validateConfig (config\<lparr>test_split_ratio := Some testSize\<rparr>) = Inr True)"
proof -
  have "\<exists>pre post. validateConfig (config\<lparr>test_split_ratio := Some testSize\<rparr>)
             = Inl (Error (''Configuration validation failed:'' @ [CHR 0x0A]
                           @ pre @ ''test_split_ratio must be between 0 and 1'' @ post))"
    if "testSize \<le> 0 \<or> 1 \<le> testSize" and "target_fields config \<noteq> None"
    using validateConfig_ratio [of "config\<lparr>test_split_ratio := Some testSize\<rparr>" testSize] that
    by simp
  moreover have "validateConfig (config\<lparr>test_split_ratio := Some testSize\<rparr>) = Inl TypeError"
    if "target_fields config = None"
    using validateConfig_no_fields [of "config\<lparr>test_split_ratio := Some testSize\<rparr>"] that
    by simp
  moreover note validateConfig_valid_ratio [of config testSize]
    trainTestSplit_partition [OF assms, of this testSize shuffle]
    trainTestSplit_all_test [OF assms, of testSize this shuffle]
    stratifiedSplit_partition [OF assms, of this testSize field m]
  ultimately show ?thesis by blast
qed
theorem split_ratio_unchecked_witness:
  "mset (train (fst (trainTestSplit (new_DataSplitter (Some 7))
        [\<lparr>id_row = ''1'', embedding = [], metadata = [(''articletype'', ''Shirts'')]\<rparr>,
         \<lparr>id_row = ''2'', embedding = [], metadata = [(''articletype'', ''Jeans'')]\<rparr>]
        (3 / 2) True)))
   + mset (test (fst (trainTestSplit (new_DataSplitter (Some 7))
        [\<lparr>id_row = ''1'', embedding = [], metadata = [(''articletype'', ''Shirts'')]\<rparr>,
         \<lparr>id_row = ''2'', embedding = [], metadata = [(''articletype'', ''Jeans'')]\<rparr>]
        (3 / 2) True)))
   = mset (map Some
        [\<lparr>id_row = ''1'', embedding = [], metadata = [(''articletype'', ''Shirts'')]\<rparr>,
         \<lparr>id_row = ''2'', embedding = [], metadata = [(''articletype'', ''Jeans'')]\<rparr>])
   \<and> train (fst (trainTestSplit (new_DataSplitter (Some 7))
        [\<lparr>id_row = ''1'', embedding = [], metadata = [(''articletype'', ''Shirts'')]\<rparr>,
         \<lparr>id_row = ''2'', embedding = [], metadata = [(''articletype'', ''Jeans'')]\<rparr>]
        (3 / 2) True)) = []
   \<and> (\<exists>r this'. stratifiedSplit (new_DataSplitter (Some 7))
        [\<lparr>id_row = ''1'', embedding = [], metadata = [(''articletype'', ''Shirts'')]\<rparr>,
         \<lparr>id_row = ''2'', embedding = [], metadata = [(''articletype'', ''Jeans'')]\<rparr>]
        (3 / 2) ''articletype'' 2 = (Inr r, this')
      \<and> mset (train r) + mset (test r) = mset (map Some
        [\<lparr>id_row = ''1'', embedding = [], metadata = [(''articletype'', ''Shirts'')]\<rparr>,
         \<lparr>id_row = ''2'', embedding = [], metadata = [(''articletype'', ''Jeans'')]\<rparr>]))
   \<and> (\<exists>pre post. validateConfig
        (\<lparr>k_values = Some [1, 5], target_fields = Some [''articletype''],
          test_split_ratio = Some (1 / 5), min_category_samples = Some 2\<rparr>
         \<lparr>test_split_ratio := Some (3 / 2)\<rparr>)
        = Inl (Error (''Configuration validation failed:'' @ [CHR 0x0A]
                      @ pre @ ''test_split_ratio must be between 0 and 1'' @ post)))"
proof -
  let ?data = "[\<lparr>id_row = ''1'', embedding = [], metadata = [(''articletype'', ''Shirts'')]\<rparr>,
         \<lparr>id_row = ''2'', embedding = [], metadata = [(''articletype'', ''Jeans'')]\<rparr>]"
  let ?config = "\<lparr>k_values = Some [1, 5], target_fields = Some [''articletype''],
          test_split_ratio = Some (1 / 5), min_category_samples = Some 2\<rparr>"
  have h: "length ?data < 2 ^ 32" by simp
  have r: "(1::rat) \<le> 3 / 2" "(3 / 2 :: rat) \<le> 0 \<or> (1::rat) \<le> 3 / 2" by simp_all
  have t: "target_fields ?config \<noteq> None" by simp
  from split_ratio_unchecked [OF h, of "new_DataSplitter (Some 7)" "3 / 2" True
      "''articletype''" 2 ?config] r t
  show ?thesis by blast
qed

text \<open>
  The claim as stated has a split with a ratio outside the interval fail before any
  partition is computed. \<open>trainTestSplit\<close> returns a partition for the ratios \<open>3/2\<close> and
  \<open>-1/2\<close>, and so does \<open>stratifiedSplit\<close> for \<open>3/2\<close>.
\<close>

theorem split_ratio_counterexample:
  "fst (trainTestSplit (new_DataSplitter None)
        [\<lparr>id_row = ''1'', embedding = [], metadata = [(''articletype'', ''Shirts'')]\<rparr>,
         \<lparr>id_row = ''2'', embedding = [], metadata = [(''articletype'', ''Jeans'')]\<rparr>]
        (3 / 2) False)
   = \<lparr>train = [],
      test = [Some \<lparr>id_row = ''1'', embedding = [], metadata = [(''articletype'', ''Shirts'')]\<rparr>,
              Some \<lparr>id_row = ''2'', embedding = [], metadata = [(''articletype'', ''Jeans'')]\<rparr>],
      split_info = \<lparr>total_samples = 2, train_samples = - 1, test_samples = 3,
                     test_ratio = Some (3 / 2)\<rparr>\<rparr>
   \<and> fst (trainTestSplit (new_DataSplitter None)
        [\<lparr>id_row = ''1'', embedding = [], metadata = [(''articletype'', ''Shirts'')]\<rparr>,
         \<lparr>id_row = ''2'', embedding = [], metadata = [(''articletype'', ''Jeans'')]\<rparr>]
        (- 1 / 2) False)
   = \<lparr>train = [Some \<lparr>id_row = ''2'', embedding = [], metadata = [(''articletype'', ''Jeans'')]\<rparr>],
      test = [Some \<lparr>id_row = ''1'', embedding = [], metadata = [(''articletype'', ''Shirts'')]\<rparr>],
      split_info = \<lparr>total_samples = 2, train_samples = 3, test_samples = - 1,
                     test_ratio = Some (- 1 / 2)\<rparr>\<rparr>
   \<and> fst (stratifiedSplit (new_DataSplitter None)
        [\<lparr>id_row = ''1'', embedding = [], metadata = [(''articletype'', ''Shirts'')]\<rparr>,
         \<lparr>id_row = ''2'', embedding = [], metadata = [(''articletype'', ''Jeans'')]\<rparr>]
        (3 / 2) ''articletype'' 1)
   = Inr \<lparr>train = [],
      test = [Some \<lparr>id_row = ''1'', embedding = [], metadata = [(''articletype'', ''Shirts'')]\<rparr>,
              Some \<lparr>id_row = ''2'', embedding = [], metadata = [(''articletype'', ''Jeans'')]\<rparr>],
      strat_info = \<lparr>strat_total_samples = 2, strat_train_samples = 0,
                     strat_test_samples = 2, strat_categories = 2\<rparr>\<rparr>"
  by code_simp

section \<open>Two splitters with one seed\<close>

text \<open>
  Two splitters work on one dataset: the array \<open>D\<close> that both are given, call after call.
  The split and sample methods copy the array (\<open>[...data]\<close>) or only read it.
  \<open>shuffleArray\<close> permutes the array it is given in place and returns it, so after the call
  \<open>D\<close> holds the shuffled rows. (An array has fewer than \<open>2 ^ 32\<close> elements, and then every
  element of the shuffled array is a row, see \<open>shuffleArray_rows\<close>.)
  A call is a method with its arguments other than the dataset; what it gives is the value
  returned or the error thrown. \<open>timeSplit\<close>, which sorts by date and draws no random number,
  is not among the calls.
\<close>

datatype call =
    TrainTestSplit rat bool
  | StratifiedSplit rat string int
  | KFoldSplit int bool "string option"
  | StratifiedKFoldSplit int string
  | BootstrapSample nat "nat option"
  | LeaveOneOutSplit
  | ShuffleArray

datatype outcome =
    Split split
  | Stratified "js_error + strat_split"
  | KFold "js_error + kfold"
  | Samples "row option list list"
  | Splits "fold list"
  | Shuffled "row option list"

text \<open>
  \<open>perform D this c\<close> is the call \<open>c\<close> of the splitter \<open>this\<close> on the array with the content
  \<open>D\<close>: the outcome, the content of the array after the call, and the splitter after it.
\<close>

fun perform :: "row list \<Rightarrow> DataSplitter \<Rightarrow> call \<Rightarrow> outcome \<times> row list \<times> DataSplitter" where
  "perform D this (TrainTestSplit testSize shuffle) =
     (let r = trainTestSplit this D testSize shuffle in (Split (fst r), D, snd r))"
| "perform D this (StratifiedSplit testSize stratifyField minSamplesPerCategory) =
     (let r = stratifiedSplit this D testSize stratifyField minSamplesPerCategory
      in (Stratified (fst r), D, snd r))"
| "perform D this (KFoldSplit k shuffle stratify) =
     (let r = kFoldSplit this D k shuffle stratify in (KFold (fst r), D, snd r))"
| "perform D this (StratifiedKFoldSplit k stratifyField) =
     (let r = stratifiedKFoldSplit this (map Some D) k stratifyField in (KFold (fst r), D, snd r))"
| "perform D this (BootstrapSample numSamples sampleSize) =
     (let r = bootstrapSample this D numSamples sampleSize in (Samples (fst r), D, snd r))"
| "perform D this LeaveOneOutSplit = (Splits (leaveOneOutSplit D), D, this)"
| "perform D this ShuffleArray =
     (let r = shuffleArray this (map Some D) in (Shuffled (fst r), map the (fst r), snd r))"

text \<open>The calls of a sequence made one after the other by one splitter.\<close>

fun run :: "row list \<Rightarrow> DataSplitter \<Rightarrow> call list \<Rightarrow> outcome list \<times> row list" where
  "run D this [] = ([], D)"
| "run D this (c # cs) =
     (let r = perform D this c; rest = run (fst (snd r)) (snd (snd r)) cs
      in (fst r # fst rest, snd rest))"



lemma shuffleArray_rows:
  assumes "length D < 2 ^ 32"
  shows "map Some (map the (fst (shuffleArray this (map Some D)))) = fst (shuffleArray this (map Some D))"
proof -
  have "length (map Some D) < 2 ^ 32" using assms by simp
  from shuffleArray_mset(1) [OF this, of this]
  have "set (fst (shuffleArray this (map Some D))) = set (map Some D)" by (rule mset_eq_setD)
  then have "\<forall>x \<in> set (fst (shuffleArray this (map Some D))). Some (the x) = x" by auto
  then show ?thesis by (simp add: map_idI)
qed

lemma perform_keeps:
  "c \<noteq> ShuffleArray \<Longrightarrow> fst (snd (perform D this c)) = D"
  by (cases c) (simp_all add: Let_def)

lemma run_keeps:
  "ShuffleArray \<notin> set cs \<Longrightarrow> snd (run D this cs) = D"
proof (induction cs arbitrary: D this)
  case Nil
  show ?case by simp
next
  case (Cons c cs)
  then have c: "c \<noteq> ShuffleArray" and rest: "ShuffleArray \<notin> set cs" by auto
  show ?case using Cons.IH [OF rest] perform_keeps [OF c] by (simp add: Let_def)
qed


subsection \<open>Only the generator counts\<close>




















section \<open>Cross-validation\<close>

text \<open>
  \<^verbatim>\<open>
  export class CrossValidator {
    constructor(config = {}) {
      this.config = { k: 5, stratify: true, random_seed: 42, ...config };
      this.splitter = new DataSplitter(this.config.random_seed);
    }
  \<close>
\<close>

record cv_options =
  option_k :: "int option"
  option_stratify :: "bool option"
  option_random_seed :: "int option"

record cv_config =
  config_k :: int
  config_stratify :: bool
  config_random_seed :: int

record CrossValidator =
  cv_config :: cv_config
  splitter :: DataSplitter

definition new_CrossValidator :: "cv_options \<Rightarrow> CrossValidator" where
  "new_CrossValidator options =
     (let seed = (case option_random_seed options of None \<Rightarrow> 42 | Some s \<Rightarrow> s)
      in \<lparr>cv_config = \<lparr>config_k = (case option_k options of None \<Rightarrow> 5 | Some n \<Rightarrow> n),
                         config_stratify = (case option_stratify options of None \<Rightarrow> True | Some b \<Rightarrow> b),
                         config_random_seed = seed\<rparr>,
          splitter = new_DataSplitter (Some seed)\<rparr>)"

text \<open>
  The evaluation callback is given the train and the test records of a fold and the
  index of the fold. It returns an object of metrics, each a number (\<open>None\<close> is \<open>NaN\<close>), or
  throws: an \<open>Error\<close> with its message, some other value that has no \<open>message\<close>, or \<open>null\<close> or
  \<open>undefined\<close>, of which not even a property can be read. The object is the list of its
  properties in the order in which they were set.
\<close>

datatype thrown = ErrorObject string | NoMessage | Nullish

type_synonym evaluation =
  "row option list \<Rightarrow> row option list \<Rightarrow> nat \<Rightarrow> thrown + (string \<times> number) list"

fun property_set :: "(string \<times> 'v) list \<Rightarrow> string \<Rightarrow> 'v \<Rightarrow> (string \<times> 'v) list" where
  "property_set [] key v = [(key, v)]"
| "property_set ((k, w) # obj) key v =
     (if k = key then (k, v) # obj else (k, w) # property_set obj key v)"

definition object_of :: "(string \<times> 'v) list \<Rightarrow> (string \<times> 'v) list" where
  "object_of properties = foldl (\<lambda>obj p. property_set obj (fst p) (snd p)) [] properties"

text \<open>
  \<^verbatim>\<open>
      try {
        const foldResult = await evaluationFunction(fold.train, fold.test, i);
        results.push({ fold: fold.fold, ...foldResult,
                       train_size: fold.train_size, test_size: fold.test_size });
      } catch (error) {
        console.error(`Error in fold ${fold.fold}:`, error);
        results.push({ fold: fold.fold, error: error.message,
                       train_size: fold.train_size, test_size: fold.test_size });
      }
  \<close>
  An entry of the results has the properties \<open>fold\<close>, \<open>train_size\<close>, \<open>test_size\<close>, possibly
  \<open>error\<close>, and the metrics. The spread of the callback's object comes after \<open>fold\<close> and
  before the sizes: a \<open>fold\<close> or an \<open>error\<close> among the metrics is taken over, a size is
  overwritten. The \<open>error\<close> of an entry is absent, or the message of what was thrown
  (\<open>undefined\<close> when it has none), or a number that the callback returned under this name.
\<close>

datatype error_value = NoError | Message "string option" | Metric number

record fold_result =
  result_fold :: number
  result_error :: error_value
  result_metrics :: "(string \<times> number) list"
  result_train_size :: nat
  result_test_size :: nat

definition reserved :: "string list" where
  "reserved = [''fold'', ''train_size'', ''test_size'', ''error'']"

definition fold_succeeded :: "fold \<Rightarrow> (string \<times> number) list \<Rightarrow> fold_result" where
  "fold_succeeded f foldResult =
     (let obj = object_of foldResult
      in \<lparr>result_fold = (case map_of obj ''fold'' of None \<Rightarrow> Some (of_nat (fold f)) | Some v \<Rightarrow> v),
          result_error = (case map_of obj ''error'' of None \<Rightarrow> NoError | Some v \<Rightarrow> Metric v),
          result_metrics = filter (\<lambda>p. fst p \<notin> set reserved) obj,
          result_train_size = train_size f,
          result_test_size = test_size f\<rparr>)"

definition fold_failed :: "fold \<Rightarrow> string option \<Rightarrow> fold_result" where
  "fold_failed f message =
     \<lparr>result_fold = Some (of_nat (fold f)), result_error = Message message,
      result_metrics = [], result_train_size = train_size f, result_test_size = test_size f\<rparr>"

fun fold_loop ::
  "evaluation \<Rightarrow> fold list \<Rightarrow> nat \<Rightarrow> fold_result list \<Rightarrow> js_error + fold_result list" where
  "fold_loop evaluationFunction [] i results = Inr results"
| "fold_loop evaluationFunction (f # fs) i results =
     (case evaluationFunction (train f) (test f) i of
        Inr foldResult \<Rightarrow>
          fold_loop evaluationFunction fs (i + 1) (results @ [fold_succeeded f foldResult])
      | Inl (ErrorObject message) \<Rightarrow>
          fold_loop evaluationFunction fs (i + 1) (results @ [fold_failed f (Some message)])
      | Inl NoMessage \<Rightarrow>
          fold_loop evaluationFunction fs (i + 1) (results @ [fold_failed f None])
      | Inl Nullish \<Rightarrow> Inl TypeError)"

text \<open>
  \<^verbatim>\<open>
  mean(arr) { return arr.length > 0 ? arr.reduce((a, b) => a + b, 0) / arr.length : 0; }
  std(arr) {
    const m = this.mean(arr);
    const variance = this.mean(arr.map(x => (x - m) ** 2));
    return Math.sqrt(variance);
  }
  \<close>
  The sums, the quotient, the differences and the squares are rounded as doubles are, and
  so is the square root: \<open>Math.sqrt\<close> gives the double nearest to the root, ties to even,
  and \<open>NaN\<close> for a negative number. The root of \<open>x\<close> between \<open>4 ^ h\<close> and \<open>4 ^ (h + 1)\<close> has
  the unit \<open>u = 2 ^ (h - 52)\<close>; with \<open>r\<close> the integer root of \<open>x / u\<^sup>2\<close>, it is \<open>r u\<close> or
  \<open>(r + 1) u\<close>, whichever is nearer.
\<close>

primrec root_bits :: "nat \<Rightarrow> int \<Rightarrow> int \<Rightarrow> int" where
  "root_bits 0 r n = (if (r + 1) * (r + 1) \<le> n then r + 1 else r)"
| "root_bits (Suc b) r n =
     root_bits b (if (r + 2 ^ Suc b) * (r + 2 ^ Suc b) \<le> n then r + 2 ^ Suc b else r) n"

definition integer_root :: "int \<Rightarrow> int" where
  "integer_root n = (if n \<le> 0 then 0 else root_bits (nat (bitlen n)) 0 n)"

definition Math_sqrt :: "rat \<Rightarrow> number" where
  "Math_sqrt x =
     (if x < 0 then None
      else if x = 0 then Some 0
      else
        let u = 2 powi (max (expo x div 2 - 52) (- 1074));
            q = x / (u * u);
            r = integer_root \<lfloor>q\<rfloor>;
            half = (of_int r + 1 / 2) * (of_int r + 1 / 2);
            m = (if q > half \<or> (q = half \<and> odd r) then r + 1 else r)
        in Some (of_int m * u))"

definition mean :: "rat list \<Rightarrow> rat" where
  "mean arr = (if arr \<noteq> [] then js_div (foldl js_add 0 arr) (of_nat (length arr)) else 0)"

definition variance :: "rat list \<Rightarrow> rat" where
  "variance arr = (let m = mean arr in mean (map (\<lambda>x. fl (fl (x - m) * fl (x - m))) arr))"

definition std :: "rat list \<Rightarrow> number" where
  "std arr = Math_sqrt (variance arr)"

text \<open>
  \<^verbatim>\<open>
  aggregateCrossValidationResults(foldResults, foldInfo) {
    const validResults = foldResults.filter(r => !r.error);
    if (validResults.length === 0) {
      throw new Error('All cross-validation folds failed');
    }
    const sampleResult = validResults[0];
    const metricKeys = Object.keys(sampleResult).filter(
      key => !['fold', 'train_size', 'test_size', 'error'].includes(key) &&
             typeof sampleResult[key] === 'number');
    const aggregated = { cv_info: foldInfo, successful_folds: validResults.length,
      failed_folds: foldResults.length - validResults.length, metrics: {} };
    for (const metric of metricKeys) {
      const values = validResults.map(r => r[metric]).filter(v => !isNaN(v));
      if (values.length > 0) {
        aggregated.metrics[metric] = { mean: this.mean(values), std: this.std(values),
          min: Math.min(...values), max: Math.max(...values), values: values };
      }
    }
    aggregated.fold_results = foldResults;
    return aggregated;
  }
  \<close>
  The empty string, \<open>undefined\<close>, 0 and \<open>NaN\<close> are the values of \<open>error\<close> that \<open>!r.error\<close> lets
  pass. A metric that an entry lacks reads as \<open>undefined\<close>, which \<open>isNaN\<close> drops as it drops
  \<open>NaN\<close>.
\<close>

fun truthy :: "error_value \<Rightarrow> bool" where
  "truthy NoError = False"
| "truthy (Message None) = False"
| "truthy (Message (Some m)) = (m \<noteq> [])"
| "truthy (Metric None) = False"
| "truthy (Metric (Some x)) = (x \<noteq> 0)"

record stats =
  stat_mean :: rat
  stat_std :: number
  stat_min :: rat
  stat_max :: rat
  stat_values :: "rat list"

definition metric_values :: "fold_result list \<Rightarrow> string \<Rightarrow> rat list" where
  "metric_values validResults metric =
     List.map_filter (\<lambda>r. case map_of (result_metrics r) metric of
                             Some (Some x) \<Rightarrow> Some x | _ \<Rightarrow> None) validResults"

definition statistics :: "rat list \<Rightarrow> stats option" where
  "statistics vs =
     (case vs of
        [] \<Rightarrow> None
      | v # rest \<Rightarrow> Some \<lparr>stat_mean = mean vs, stat_std = std vs, stat_min = List.fold min rest v,
                          stat_max = List.fold max rest v, stat_values = vs\<rparr>)"

record aggregated =
  cv_info :: fold_info
  successful_folds :: nat
  failed_folds :: nat
  cv_metrics :: "(string \<times> stats) list"
  fold_results :: "fold_result list"

definition aggregateCrossValidationResults ::
  "fold_result list \<Rightarrow> fold_info \<Rightarrow> js_error + aggregated" where
  "aggregateCrossValidationResults foldResults foldInfo =
     (let validResults = filter (\<lambda>r. \<not> truthy (result_error r)) foldResults
      in case validResults of
           [] \<Rightarrow> Inl (Error ''All cross-validation folds failed'')
         | sampleResult # others \<Rightarrow>
             let metricKeys = key_order (map fst (result_metrics sampleResult))
             in Inr \<lparr>cv_info = foldInfo,
                      successful_folds = length validResults,
                      failed_folds = length foldResults - length validResults,
                      cv_metrics = List.map_filter
                        (\<lambda>metric. map_option (Pair metric)
                                     (statistics (metric_values validResults metric)))
                        metricKeys,
                      fold_results = foldResults\<rparr>)"

text \<open>
  \<^verbatim>\<open>
  async performCrossValidation(data, evaluationFunction, stratifyField = null) {
    const stratify = this.config.stratify ? (stratifyField || 'articletype') : null;
    const splits = this.splitter.kFoldSplit(data, this.config.k, true, stratify);
    const results = [];
    for (let i = 0; i < splits.folds.length; i++) {
      const fold = splits.folds[i];
      ...
    }
    return this.aggregateCrossValidationResults(results, splits.fold_info);
  }
  \<close>
\<close>

definition performCrossValidation ::
  "CrossValidator \<Rightarrow> row list \<Rightarrow> evaluation \<Rightarrow> string option
   \<Rightarrow> (js_error + aggregated) \<times> CrossValidator" where
  "performCrossValidation this data evaluationFunction stratifyField =
     (let stratify = (if config_stratify (cv_config this)
                      then Some (case stratifyField of
                                   None \<Rightarrow> ''articletype''
                                 | Some [] \<Rightarrow> ''articletype''
                                 | Some (c # cs) \<Rightarrow> c # cs)
                      else None);
          split = kFoldSplit (splitter this) data (config_k (cv_config this)) True stratify;
          this' = this\<lparr>splitter := snd split\<rparr>
      in case fst split of
           Inl e \<Rightarrow> (Inl e, this')
         | Inr splits \<Rightarrow>
             (case fold_loop evaluationFunction (folds splits) 0 [] of
                Inl e \<Rightarrow> (Inl e, this')
              | Inr results \<Rightarrow>
                  (aggregateCrossValidationResults results (fold_info splits), this')))"

text \<open>
  A callback that throws an \<open>Error\<close> without a message on the fold with index 1, the second
  fold, and returns an accuracy of one half for every other fold.
\<close>

definition throws_on_fold_2 :: evaluation where
  "throws_on_fold_2 trainData testData foldIndex =
     (if foldIndex = 1 then Inl (ErrorObject []) else Inr [(''accuracy'', Some (1 / 2))])"
subsection \<open>One entry for every fold\<close>

definition entry_of :: "evaluation \<Rightarrow> fold \<Rightarrow> nat \<Rightarrow> fold_result" where
  "entry_of evaluationFunction f i =
     (case evaluationFunction (train f) (test f) i of
        Inr foldResult \<Rightarrow> fold_succeeded f foldResult
      | Inl (ErrorObject message) \<Rightarrow> fold_failed f (Some message)
      | Inl other \<Rightarrow> fold_failed f None)"

definition throws :: "evaluation \<Rightarrow> fold \<Rightarrow> nat \<Rightarrow> bool" where
  "throws evaluationFunction f i = isl (evaluationFunction (train f) (test f) i)"

lemma fold_loop_entries:
  assumes "\<And>j. j < length fs \<Longrightarrow> ev (train (fs ! j)) (test (fs ! j)) (i + j) \<noteq> Inl Nullish"
  shows "fold_loop ev fs i results
       = Inr (results @ map (\<lambda>j. entry_of ev (fs ! j) (i + j)) [0..<length fs])"
  using assms
proof (induction fs arbitrary: i results)
  case Nil
  show ?case by simp
next
  case (Cons f fs)
  have rest: "ev (train (fs ! j)) (test (fs ! j)) (Suc i + j) \<noteq> Inl Nullish" if "j < length fs" for j
    using Cons.prems [of "Suc j"] that by simp
  have first: "ev (train f) (test f) i \<noteq> Inl Nullish" using Cons.prems [of 0] by simp
  have shift: "map (\<lambda>j. entry_of ev ((f # fs) ! j) (i + j)) [0..<length (f # fs)]
      = entry_of ev f i # map (\<lambda>j. entry_of ev (fs ! j) (Suc i + j)) [0..<length fs]"
  proof -
    have "map (\<lambda>j. entry_of ev ((f # fs) ! j) (i + j)) [0..<Suc (length fs)]
        = entry_of ev ((f # fs) ! 0) (i + 0)
          # map (\<lambda>j. entry_of ev ((f # fs) ! Suc j) (i + Suc j)) [0..<length fs]"
      by (rule map_upt_Suc)
    then show ?thesis by (simp del: upt_Suc)
  qed
  have step: "fold_loop ev (f # fs) i results = fold_loop ev fs (Suc i) (results @ [entry_of ev f i])"
    using first by (simp add: entry_of_def split: sum.splits thrown.splits)
  show ?case
    unfolding step shift using Cons.IH [OF rest, of "results @ [entry_of ev f i]"] by simp
qed

lemma aggregate_fails:
  "isl (aggregateCrossValidationResults rs info) \<longleftrightarrow> (\<forall>r \<in> set rs. truthy (result_error r))"
proof (cases "filter (\<lambda>r. \<not> truthy (result_error r)) rs")
  case Nil
  then have "\<forall>r \<in> set rs. truthy (result_error r)" by (simp add: filter_empty_conv)
  with Nil show ?thesis by (simp add: aggregateCrossValidationResults_def)
next
  case (Cons r others)
  then have "r \<in> set (filter (\<lambda>r. \<not> truthy (result_error r)) rs)" by simp
  then have "\<not> (\<forall>r \<in> set rs. truthy (result_error r))" by auto
  with Cons show ?thesis by (simp add: aggregateCrossValidationResults_def Let_def)
qed

lemma aggregate_counts:
  assumes "aggregateCrossValidationResults rs info = Inr agg"
  shows "failed_folds agg = length (filter (\<lambda>r. truthy (result_error r)) rs)"
    and "successful_folds agg = length (filter (\<lambda>r. \<not> truthy (result_error r)) rs)"
    and "fold_results agg = rs"
    and "cv_info agg = info"
proof -
  have "length (filter (\<lambda>r. truthy (result_error r)) rs)
      + length (filter (\<lambda>r. \<not> truthy (result_error r)) rs) = length rs"
    by (rule sum_length_filter_compl)
  then have "length rs - length (filter (\<lambda>r. \<not> truthy (result_error r)) rs)
      = length (filter (\<lambda>r. truthy (result_error r)) rs)" by simp
  with assms show "failed_folds agg = length (filter (\<lambda>r. truthy (result_error r)) rs)"
    by (auto simp: aggregateCrossValidationResults_def Let_def split: list.splits)
  from assms show "successful_folds agg = length (filter (\<lambda>r. \<not> truthy (result_error r)) rs)"
    "fold_results agg = rs" "cv_info agg = info"
    by (auto simp: aggregateCrossValidationResults_def Let_def split: list.splits)
qed

text \<open>
  An entry counts as failed when its \<open>error\<close> is truthy. For a fold whose callback threw an
  \<open>Error\<close> with a message that is not empty, and for a fold whose callback returned an object
  without an \<open>error\<close>, this is the same as to have thrown.
\<close>

definition well_behaved :: "evaluation \<Rightarrow> fold \<Rightarrow> nat \<Rightarrow> bool" where
  "well_behaved evaluationFunction f i =
     (case evaluationFunction (train f) (test f) i of
        Inr foldResult \<Rightarrow> ''error'' \<notin> fst ` set foldResult
      | Inl (ErrorObject message) \<Rightarrow> message \<noteq> []
      | Inl other \<Rightarrow> False)"

lemma property_set_keys:
  "fst ` set (property_set obj key v) = insert key (fst ` set obj)"
  by (induction obj key v rule: property_set.induct) auto

lemma object_of_keys: "fst ` set (object_of ps) = fst ` set ps"
proof -
  have "fst ` set (foldl (\<lambda>obj p. property_set obj (fst p) (snd p)) acc ps)
      = fst ` set acc \<union> fst ` set ps" for acc :: "(string \<times> 'a) list"
    by (induction ps arbitrary: acc) (auto simp: property_set_keys)
  from this [of "[]"] show ?thesis by (simp add: object_of_def)
qed

lemma well_behaved_truthy:
  assumes "well_behaved ev f i"
  shows "truthy (result_error (entry_of ev f i)) \<longleftrightarrow> throws ev f i"
proof (cases "ev (train f) (test f) i")
  case (Inl t)
  with assms show ?thesis
    by (cases t) (simp_all add: well_behaved_def entry_of_def throws_def fold_failed_def)
next
  case (Inr r)
  with assms have "''error'' \<notin> fst ` set (object_of r)"
    by (simp add: well_behaved_def object_of_keys)
  then have "map_of (object_of r) ''error'' = None" by (simp add: map_of_eq_None_iff)
  with Inr show ?thesis by (simp add: entry_of_def throws_def fold_succeeded_def Let_def)
qed

lemma well_behaved_run:
  assumes split: "fst (kFoldSplit (splitter this) data (config_k (cv_config this)) True
            (if config_stratify (cv_config this)
             then Some (case stratifyField of None \<Rightarrow> ''articletype''
                        | Some [] \<Rightarrow> ''articletype'' | Some (c # cs) \<Rightarrow> c # cs)
             else None)) = Inr splits"
    and wb: "\<And>j. j < length (folds splits) \<Longrightarrow> well_behaved ev (folds splits ! j) j"
  shows "isl (fst (performCrossValidation this data ev stratifyField))
      \<longleftrightarrow> (\<forall>j < length (folds splits). throws ev (folds splits ! j) j)"
    and "fst (performCrossValidation this data ev stratifyField) = Inr agg \<Longrightarrow>
      failed_folds agg = length (filter (\<lambda>j. throws ev (folds splits ! j) j) [0..<length (folds splits)])
      \<and> successful_folds agg
        = length (filter (\<lambda>j. \<not> throws ev (folds splits ! j) j) [0..<length (folds splits)])
      \<and> fold_results agg = map (\<lambda>j. entry_of ev (folds splits ! j) j) [0..<length (folds splits)]"
proof -
  define fs where "fs = folds splits"
  define rs where "rs = map (\<lambda>j. entry_of ev (fs ! j) j) [0..<length fs]"
  have nn: "ev (train (fs ! j)) (test (fs ! j)) (0 + j) \<noteq> Inl Nullish" if "j < length fs" for j
    using wb [of j] that by (auto simp: well_behaved_def fs_def)
  have loop: "fold_loop ev fs 0 [] = Inr rs"
    using fold_loop_entries [of fs ev 0 "[]"] nn by (simp add: rs_def)
  have run: "fst (performCrossValidation this data ev stratifyField)
      = aggregateCrossValidationResults rs (fold_info splits)"
    using split loop by (simp add: performCrossValidation_def Let_def fs_def)
  have tr: "truthy (result_error (entry_of ev (fs ! j) j)) \<longleftrightarrow> throws ev (fs ! j) j"
    if "j < length fs" for j
    using well_behaved_truthy [OF wb [of j]] that by (simp add: fs_def)
  show "isl (fst (performCrossValidation this data ev stratifyField))
      \<longleftrightarrow> (\<forall>j < length (folds splits). throws ev (folds splits ! j) j)"
    unfolding run aggregate_fails using tr by (auto simp: rs_def fs_def)
  have f1: "filter (\<lambda>r. truthy (result_error r)) rs
      = map (\<lambda>j. entry_of ev (fs ! j) j) (filter (\<lambda>j. throws ev (fs ! j) j) [0..<length fs])"
    unfolding rs_def filter_map by (rule arg_cong [where f = "map _"], rule filter_cong) (auto simp: tr)
  have f2: "filter (\<lambda>r. \<not> truthy (result_error r)) rs
      = map (\<lambda>j. entry_of ev (fs ! j) j) (filter (\<lambda>j. \<not> throws ev (fs ! j) j) [0..<length fs])"
    unfolding rs_def filter_map by (rule arg_cong [where f = "map _"], rule filter_cong) (auto simp: tr)
  show "fst (performCrossValidation this data ev stratifyField) = Inr agg \<Longrightarrow>
      failed_folds agg = length (filter (\<lambda>j. throws ev (folds splits ! j) j) [0..<length (folds splits)])
      \<and> successful_folds agg
        = length (filter (\<lambda>j. \<not> throws ev (folds splits ! j) j) [0..<length (folds splits)])
      \<and> fold_results agg = map (\<lambda>j. entry_of ev (folds splits ! j) j) [0..<length (folds splits)]"
    unfolding run using aggregate_counts [of rs "fold_info splits" agg]
    by (simp add: f1 f2) (simp add: rs_def fs_def)
qed
subsection \<open>A fold that throws an error without a message\<close>

text \<open>
  With a message that is not empty the fold that throws is counted as failed, and the
  statistics are those of the other four folds.
\<close>

definition throws_message_on_fold_2 :: evaluation where
  "throws_message_on_fold_2 trainData testData foldIndex =
     (if foldIndex = 1 then Inl (ErrorObject ''no neighbours'')
      else Inr [(''accuracy'', Some (1 / 2))])"

lemma message_counts_as_failure:
  "successful_folds (projr (fst (performCrossValidation
       (new_CrossValidator \<lparr>option_k = None, option_stratify = None, option_random_seed = None\<rparr>)
       [\<lparr>id_row = ''1'', embedding = [], metadata = [(''articletype'', ''Shirts'')]\<rparr>,
        \<lparr>id_row = ''2'', embedding = [], metadata = [(''articletype'', ''Shirts'')]\<rparr>,
        \<lparr>id_row = ''3'', embedding = [], metadata = [(''articletype'', ''Shirts'')]\<rparr>,
        \<lparr>id_row = ''4'', embedding = [], metadata = [(''articletype'', ''Shirts'')]\<rparr>,
        \<lparr>id_row = ''5'', embedding = [], metadata = [(''articletype'', ''Shirts'')]\<rparr>]
       throws_message_on_fold_2 None))) = 4
  \<and> failed_folds (projr (fst (performCrossValidation
       (new_CrossValidator \<lparr>option_k = None, option_stratify = None, option_random_seed = None\<rparr>)
       [\<lparr>id_row = ''1'', embedding = [], metadata = [(''articletype'', ''Shirts'')]\<rparr>,
        \<lparr>id_row = ''2'', embedding = [], metadata = [(''articletype'', ''Shirts'')]\<rparr>,
        \<lparr>id_row = ''3'', embedding = [], metadata = [(''articletype'', ''Shirts'')]\<rparr>,
        \<lparr>id_row = ''4'', embedding = [], metadata = [(''articletype'', ''Shirts'')]\<rparr>,
        \<lparr>id_row = ''5'', embedding = [], metadata = [(''articletype'', ''Shirts'')]\<rparr>]
       throws_message_on_fold_2 None))) = 1
  \<and> map result_error (fold_results (projr (fst (performCrossValidation
       (new_CrossValidator \<lparr>option_k = None, option_stratify = None, option_random_seed = None\<rparr>)
       [\<lparr>id_row = ''1'', embedding = [], metadata = [(''articletype'', ''Shirts'')]\<rparr>,
        \<lparr>id_row = ''2'', embedding = [], metadata = [(''articletype'', ''Shirts'')]\<rparr>,
        \<lparr>id_row = ''3'', embedding = [], metadata = [(''articletype'', ''Shirts'')]\<rparr>,
        \<lparr>id_row = ''4'', embedding = [], metadata = [(''articletype'', ''Shirts'')]\<rparr>,
        \<lparr>id_row = ''5'', embedding = [], metadata = [(''articletype'', ''Shirts'')]\<rparr>]
       throws_message_on_fold_2 None))))
    = [NoError, Message (Some ''no neighbours''), NoError, NoError, NoError]
  \<and> cv_metrics (projr (fst (performCrossValidation
       (new_CrossValidator \<lparr>option_k = None, option_stratify = None, option_random_seed = None\<rparr>)
       [\<lparr>id_row = ''1'', embedding = [], metadata = [(''articletype'', ''Shirts'')]\<rparr>,
        \<lparr>id_row = ''2'', embedding = [], metadata = [(''articletype'', ''Shirts'')]\<rparr>,
        \<lparr>id_row = ''3'', embedding = [], metadata = [(''articletype'', ''Shirts'')]\<rparr>,
        \<lparr>id_row = ''4'', embedding = [], metadata = [(''articletype'', ''Shirts'')]\<rparr>,
        \<lparr>id_row = ''5'', embedding = [], metadata = [(''articletype'', ''Shirts'')]\<rparr>]
       throws_message_on_fold_2 None)))
    = [(''accuracy'', \<lparr>stat_mean = 1 / 2, stat_std = Some 0, stat_min = 1 / 2, stat_max = 1 / 2,
                       stat_values = [1 / 2, 1 / 2, 1 / 2, 1 / 2]\<rparr>)]"
  by code_simp

text \<open>
  Claim C4, at a callback that throws only on fold 2 of 5, an \<open>Error\<close> with no message. The
  error is caught and recorded in the entry of fold 2 and the other folds are run; but the
  empty message is falsy, the entry passes \<open>r => !r.error\<close>, and the result reports five
  successful folds and no failed fold, where the claim has four and one.
\<close>

theorem empty_message_counts_as_success:
  "successful_folds (projr (fst (performCrossValidation
       (new_CrossValidator \<lparr>option_k = None, option_stratify = None, option_random_seed = None\<rparr>)
       [\<lparr>id_row = ''1'', embedding = [], metadata = [(''articletype'', ''Shirts'')]\<rparr>,
        \<lparr>id_row = ''2'', embedding = [], metadata = [(''articletype'', ''Shirts'')]\<rparr>,
        \<lparr>id_row = ''3'', embedding = [], metadata = [(''articletype'', ''Shirts'')]\<rparr>,
        \<lparr>id_row = ''4'', embedding = [], metadata = [(''articletype'', ''Shirts'')]\<rparr>,
        \<lparr>id_row = ''5'', embedding = [], metadata = [(''articletype'', ''Shirts'')]\<rparr>]
       throws_on_fold_2 None))) = 5
  \<and> failed_folds (projr (fst (performCrossValidation
       (new_CrossValidator \<lparr>option_k = None, option_stratify = None, option_random_seed = None\<rparr>)
       [\<lparr>id_row = ''1'', embedding = [], metadata = [(''articletype'', ''Shirts'')]\<rparr>,
        \<lparr>id_row = ''2'', embedding = [], metadata = [(''articletype'', ''Shirts'')]\<rparr>,
        \<lparr>id_row = ''3'', embedding = [], metadata = [(''articletype'', ''Shirts'')]\<rparr>,
        \<lparr>id_row = ''4'', embedding = [], metadata = [(''articletype'', ''Shirts'')]\<rparr>,
        \<lparr>id_row = ''5'', embedding = [], metadata = [(''articletype'', ''Shirts'')]\<rparr>]
       throws_on_fold_2 None))) = 0
  \<and> map result_error (fold_results (projr (fst (performCrossValidation
       (new_CrossValidator \<lparr>option_k = None, option_stratify = None, option_random_seed = None\<rparr>)
       [\<lparr>id_row = ''1'', embedding = [], metadata = [(''articletype'', ''Shirts'')]\<rparr>,
        \<lparr>id_row = ''2'', embedding = [], metadata = [(''articletype'', ''Shirts'')]\<rparr>,
        \<lparr>id_row = ''3'', embedding = [], metadata = [(''articletype'', ''Shirts'')]\<rparr>,
        \<lparr>id_row = ''4'', embedding = [], metadata = [(''articletype'', ''Shirts'')]\<rparr>,
        \<lparr>id_row = ''5'', embedding = [], metadata = [(''articletype'', ''Shirts'')]\<rparr>]
       throws_on_fold_2 None))))
    = [NoError, Message (Some []), NoError, NoError, NoError]"
  by code_simp

end
